theory Spec2Isabelle
  imports Complex_Main "HOL-Library.Word"
begin

unbundle bit_operations_syntax

section \<open>PyCurveBug: acquisition, sample store and view transform\<close>

text \<open>
  A shallow embedding of the core of \<^verbatim>\<open>PyCurveBug.py\<close>: the method
  \<^verbatim>\<open>CurveTracerApp.acquire\<close> (command selection, the polling read loop, the
  decoding of a 2016-byte frame, the per-variant stores), and the view operations
  \<^verbatim>\<open>fit_to_window\<close>, \<^verbatim>\<open>reset_view\<close>, \<^verbatim>\<open>on_mouse_scroll\<close> together with
  the fixed-scale bounds of \<^verbatim>\<open>draw_plot\<close>.

  Python integers are \<open>int\<close>; the bytes of the serial line are \<open>8 word\<close>; the
  value unpacked by \<^verbatim>\<open>struct.unpack('<H', ...)\<close> is a \<open>16 word\<close>. Python floats
  (zoom level, pan offsets, margins) appear in two forms. The view operations behind
  the floor of the zoom level take them as \<open>real\<close>, without rounding. The
  statements on what \<^verbatim>\<open>fit_to_window\<close> leaves visible depend on the last bit, so
  \<open>fit_to_window_dbl\<close> and \<open>fixed_bounds_dbl\<close> take them as IEEE 754 doubles and
  round after every operation.
\<close>

subsection \<open>Constants and list helpers\<close>

type_synonym byte = "8 word"

definition ADC_MAX :: int where
  "ADC_MAX = 2800"

text \<open>\<^verbatim>\<open>list_min\<close> and \<^verbatim>\<open>list_max\<close>: 0 on the empty list.\<close>

definition list_min :: "int list \<Rightarrow> int" where
  "list_min lst = (if lst \<noteq> [] then Min (set lst) else 0)"

definition list_max :: "int list \<Rightarrow> int" where
  "list_max lst = (if lst \<noteq> [] then Max (set lst) else 0)"

subsection \<open>Decoding a frame\<close>

text \<open>
  Every way in which \<^verbatim>\<open>acquire\<close> returns \<^verbatim>\<open>False\<close>: the guard on the
  connection, the two length checks, and the \<^verbatim>\<open>except Exception\<close> handler (a
  fault of the serial transport, or an exception raised while decoding).
\<close>

datatype failure =
    NoConnection
  | FrameLengthError
  | FrameCountError
  | TransportFault
  | DecodeException

text \<open>
  \<^verbatim>\<open>struct.unpack('<H', data[i:i + 2])[0]\<close>: the little-endian 16-bit word of two
  bytes, then \<^verbatim>\<open>val & 0x0FFF\<close>.
\<close>

definition unpack_H :: "byte \<Rightarrow> byte \<Rightarrow> 16 word" where
  "unpack_H lo hi = push_bit 8 (ucast hi) OR ucast lo"

definition sample_word :: "byte \<Rightarrow> byte \<Rightarrow> int" where
  "sample_word lo hi = uint (unpack_H lo hi AND 0x0FFF)"

text \<open>
  The loop \<^verbatim>\<open>for i in range(0, len(data), 2)\<close>. The last slice of an odd-length
  input has one byte, on which \<^verbatim>\<open>struct.unpack\<close> raises.
\<close>

fun parse_values :: "byte list \<Rightarrow> failure + int list" where
  "parse_values [] = Inr []"
| "parse_values [b] = Inl DecodeException"
| "parse_values (lo # hi # rest) =
     (case parse_values rest of
        Inl e \<Rightarrow> Inl e
      | Inr vs \<Rightarrow> Inr (sample_word lo hi # vs))"

text \<open>The slice \<^verbatim>\<open>xs[0::3]\<close>; \<^verbatim>\<open>xs[k::3]\<close> is \<open>every_third (drop k xs)\<close>.\<close>

fun every_third :: "'a list \<Rightarrow> 'a list" where
  "every_third [] = []"
| "every_third (x # xs) = x # every_third (drop 2 xs)"

text \<open>
  \<^verbatim>\<open>[drive_voltage[i] - raw[i] for i in range(len(drive_voltage))]\<close>: an index
  beyond \<^verbatim>\<open>raw\<close> raises \<^verbatim>\<open>IndexError\<close>.
\<close>

definition current_of :: "int list \<Rightarrow> int list \<Rightarrow> failure + int list" where
  "current_of drive_voltage raw =
     (if length raw < length drive_voltage then Inl DecodeException
      else Inr (map (\<lambda>i. drive_voltage ! i - raw ! i) [0..<length drive_voltage]))"

record triplet =
  t_drive_voltage :: "int list"
  t_ch1_raw :: "int list"
  t_ch2_raw :: "int list"
  t_ch1_current :: "int list"
  t_ch2_current :: "int list"

text \<open>
  Lines 1394 to 1411 of \<^verbatim>\<open>acquire\<close>: the length check on the received bytes, the
  parse, the count check, the de-interleaving and the derived currents.
\<close>

definition decode_frame :: "byte list \<Rightarrow> failure + triplet" where
  "decode_frame data =
     (if length data \<noteq> 2016 then Inl FrameLengthError
      else
        (case parse_values data of
           Inl e \<Rightarrow> Inl e
         | Inr values \<Rightarrow>
             if length values \<noteq> 1008 then Inl FrameCountError
             else
               (let drive_voltage = every_third values;
                    ch1_raw = every_third (drop 1 values);
                    ch2_raw = every_third (drop 2 values)
                in (case current_of drive_voltage ch1_raw of
                      Inl e \<Rightarrow> Inl e
                    | Inr ch1_current \<Rightarrow>
                        (case current_of drive_voltage ch2_raw of
                           Inl e \<Rightarrow> Inl e
                         | Inr ch2_current \<Rightarrow>
                             Inr \<lparr>t_drive_voltage = drive_voltage,
                                  t_ch1_raw = ch1_raw,
                                  t_ch2_raw = ch2_raw,
                                  t_ch1_current = ch1_current,
                                  t_ch2_current = ch2_current\<rparr>)))))"

subsection \<open>Application state\<close>

record serial_port =
  is_open :: bool

record app =
  serial :: "serial_port option"
  ch1_std :: "int list"
  ch2_std :: "int list"
  ch1_voltage_std :: "int list"
  ch2_voltage_std :: "int list"
  drive_voltage_std :: "int list"
  ch1_weak :: "int list"
  ch2_weak :: "int list"
  ch1_voltage_weak :: "int list"
  ch2_voltage_weak :: "int list"
  drive_voltage_weak :: "int list"
  ch1 :: "int list"
  ch2 :: "int list"
  ch1_voltage :: "int list"
  ch2_voltage :: "int list"
  drive_voltage :: "int list"
  frame_count :: nat
  paused :: bool
  single_channel :: bool
  auto_scale :: bool
  excitation_mode :: nat
  alt_use_weak :: bool
  last_mode_was_weak :: bool
  zoom_level :: real
  pan_offset_x :: real
  pan_offset_y :: real
  settings_active :: bool

definition initial_app :: "serial_port option \<Rightarrow> app" where
  "initial_app port =
     \<lparr>serial = port,
      ch1_std = [], ch2_std = [], ch1_voltage_std = [], ch2_voltage_std = [],
      drive_voltage_std = [],
      ch1_weak = [], ch2_weak = [], ch1_voltage_weak = [], ch2_voltage_weak = [],
      drive_voltage_weak = [],
      ch1 = [], ch2 = [], ch1_voltage = [], ch2_voltage = [], drive_voltage = [],
      frame_count = 0, paused = False, single_channel = False, auto_scale = False,
      excitation_mode = 0, alt_use_weak = False, last_mode_was_weak = False,
      zoom_level = 1.0, pan_offset_x = 0.0, pan_offset_y = 0.0,
      settings_active = False\<rparr>"

text \<open>The three groups of five buffers, as tuples, for stating what a call keeps.\<close>

definition std_buffers :: "app \<Rightarrow> int list \<times> int list \<times> int list \<times> int list \<times> int list" where
  "std_buffers s =
     (ch1_std s, ch2_std s, ch1_voltage_std s, ch2_voltage_std s, drive_voltage_std s)"

definition weak_buffers :: "app \<Rightarrow> int list \<times> int list \<times> int list \<times> int list \<times> int list" where
  "weak_buffers s =
     (ch1_weak s, ch2_weak s, ch1_voltage_weak s, ch2_voltage_weak s, drive_voltage_weak s)"

definition active_series :: "app \<Rightarrow> int list \<times> int list \<times> int list \<times> int list \<times> int list" where
  "active_series s = (ch1 s, ch2 s, ch1_voltage s, ch2_voltage s, drive_voltage s)"

subsection \<open>The serial line during one call of acquire\<close>

text \<open>
  What the device and the clock do during one call is an input of the model. Each
  element of \<open>polls\<close> is one iteration of the read loop that is entered with fewer
  than 2016 bytes: the deadline of 0.5 s has passed (\<open>Expired\<close>), the input buffer
  holds the given bytes (\<open>Avail\<close>; the empty list is \<^verbatim>\<open>in_waiting == 0\<close>), or the
  port raises (\<open>Fault\<close>). When the list is used up the deadline has passed.
  \<open>command_fault\<close> says that \<^verbatim>\<open>reset_input_buffer()\<close> or \<^verbatim>\<open>write(command)\<close> raises.
\<close>

datatype poll = Expired | Avail "byte list" | Fault

record wire =
  command_fault :: bool
  polls :: "poll list"

fun read_loop :: "poll list \<Rightarrow> byte list \<Rightarrow> failure + byte list" where
  "read_loop [] data = Inr data"
| "read_loop (p # ps) data =
     (if \<not> length data < 2016 then Inr data
      else case p of
        Expired \<Rightarrow> Inr data
      | Fault \<Rightarrow> Inl TransportFault
      | Avail buf \<Rightarrow>
          read_loop ps
            (if length buf > 0
             then data @ take (min (length buf) (2016 - length data)) buf
             else data))"

subsection \<open>acquire\<close>

text \<open>The negation of the guard \<^verbatim>\<open>self.serial is None or not self.serial.is_open\<close>.\<close>

definition connected :: "app \<Rightarrow> bool" where
  "connected s = (case serial s of None \<Rightarrow> False | Some port \<Rightarrow> is_open port)"

text \<open>Lines 1367 to 1381: the command byte, the variant to store, the toggle.\<close>

definition decide_command :: "app \<Rightarrow> char \<times> bool \<times> app" where
  "decide_command s =
     (if excitation_mode s = 0 then (CHR ''T'', False, s)
      else if excitation_mode s = 1 then (CHR ''W'', True, s)
      else
        (if alt_use_weak s then CHR ''W'' else CHR ''T'',
         alt_use_weak s,
         s\<lparr>alt_use_weak := \<not> alt_use_weak s\<rparr>))"

text \<open>Lines 1413 to 1441: store by variant, then set the active series.\<close>

definition store_data :: "bool \<Rightarrow> triplet \<Rightarrow> app \<Rightarrow> app" where
  "store_data store_as_weak t s =
     (if store_as_weak then
        s\<lparr>ch1_voltage_weak := t_ch1_raw t,
          ch2_voltage_weak := t_ch2_raw t,
          ch1_weak := t_ch1_current t,
          ch2_weak := t_ch2_current t,
          drive_voltage_weak := t_drive_voltage t,
          last_mode_was_weak := True\<rparr>
      else
        s\<lparr>ch1_voltage_std := t_ch1_raw t,
          ch2_voltage_std := t_ch2_raw t,
          ch1_std := t_ch1_current t,
          ch2_std := t_ch2_current t,
          drive_voltage_std := t_drive_voltage t,
          last_mode_was_weak := False\<rparr>)"

definition set_active :: "bool \<Rightarrow> app \<Rightarrow> app" where
  "set_active store_as_weak s =
     (if store_as_weak then
        s\<lparr>ch1_voltage := ch1_voltage_weak s,
          ch2_voltage := ch2_voltage_weak s,
          ch1 := ch1_weak s,
          ch2 := ch2_weak s,
          drive_voltage := drive_voltage_weak s\<rparr>
      else
        s\<lparr>ch1_voltage := ch1_voltage_std s,
          ch2_voltage := ch2_voltage_std s,
          ch1 := ch1_std s,
          ch2 := ch2_std s,
          drive_voltage := drive_voltage_std s\<rparr>)"

text \<open>The result of \<^verbatim>\<open>acquire\<close>: \<open>Acquired\<close> is \<^verbatim>\<open>True\<close>, \<open>Failed\<close> is \<^verbatim>\<open>False\<close>.\<close>

datatype outcome = Acquired | Failed failure

definition acquire :: "wire \<Rightarrow> app \<Rightarrow> outcome \<times> app" where
  "acquire w s =
     (if \<not> connected s then (Failed NoConnection, s)
      else
        (case decide_command s of
           (command, store_as_weak, s1) \<Rightarrow>
             if command_fault w then (Failed TransportFault, s1)
             else
               (case read_loop (polls w) [] of
                  Inl e \<Rightarrow> (Failed e, s1)
                | Inr data \<Rightarrow>
                    (case decode_frame data of
                       Inl e \<Rightarrow> (Failed e, s1)
                     | Inr t \<Rightarrow>
                         (Acquired, set_active store_as_weak (store_data store_as_weak t s1))))))"

text \<open>\<^verbatim>\<open>update\<close>: one tick of the scheduler.\<close>

definition update :: "wire \<Rightarrow> app \<Rightarrow> app" where
  "update w s =
     (if \<not> paused s \<and> \<not> settings_active s then
        (case acquire w s of
           (Acquired, s') \<Rightarrow> s'\<lparr>frame_count := frame_count s' + 1\<rparr>
         | (Failed e, s') \<Rightarrow> s')
      else s)"

subsection \<open>View operations\<close>

text \<open>
  The condition under which both variants are plotted and measured
  (\<^verbatim>\<open>draw_plot\<close> and \<^verbatim>\<open>fit_to_window\<close> use the same one).
\<close>

definition both_variants :: "app \<Rightarrow> bool" where
  "both_variants s =
     (excitation_mode s = 2 \<and> length (ch1_std s) > 0 \<and> length (ch1_weak s) > 0)"

definition all_x :: "app \<Rightarrow> int list" where
  "all_x s =
     (if both_variants s
      then ch1_voltage_std s @ ch2_voltage_std s @ ch1_voltage_weak s @ ch2_voltage_weak s
      else ch1_voltage s @ ch2_voltage s)"

definition all_y :: "app \<Rightarrow> int list" where
  "all_y s =
     (if both_variants s
      then ch1_std s @ ch2_std s @ ch1_weak s @ ch2_weak s
      else ch1 s @ ch2 s)"

text \<open>The base window of the fixed scale: \<^verbatim>\<open>y_range / 8\<close> and \<^verbatim>\<open>-y_range * 7 / 8\<close>.\<close>

definition base_x_min :: real where "base_x_min = 0"
definition base_x_max :: real where "base_x_max = real_of_int ADC_MAX"
definition y_range :: real where "y_range = real_of_int (ADC_MAX - 700)"
definition base_y_max :: real where "base_y_max = y_range / 8"
definition base_y_min :: real where "base_y_min = - y_range * 7 / 8"

text \<open>
  The local variables of \<^verbatim>\<open>fit_to_window\<close>: the margins of 20 percent, the
  padded data ranges and centres, and the two zoom factors, in exact arithmetic.
\<close>

definition x_margin :: "app \<Rightarrow> real" where
  "x_margin s = (real_of_int (list_max (all_x s)) - real_of_int (list_min (all_x s))) * 0.2"

definition y_margin :: "app \<Rightarrow> real" where
  "y_margin s = (real_of_int (list_max (all_y s)) - real_of_int (list_min (all_y s))) * 0.2"

definition data_x_min :: "app \<Rightarrow> real" where
  "data_x_min s = real_of_int (list_min (all_x s)) - x_margin s"

definition data_x_max :: "app \<Rightarrow> real" where
  "data_x_max s = real_of_int (list_max (all_x s)) + x_margin s"

definition data_y_min :: "app \<Rightarrow> real" where
  "data_y_min s = real_of_int (list_min (all_y s)) - y_margin s"

definition data_y_max :: "app \<Rightarrow> real" where
  "data_y_max s = real_of_int (list_max (all_y s)) + y_margin s"

definition data_x_range :: "app \<Rightarrow> real" where
  "data_x_range s = data_x_max s - data_x_min s"

definition data_y_range :: "app \<Rightarrow> real" where
  "data_y_range s = data_y_max s - data_y_min s"

definition zoom_x :: "app \<Rightarrow> real" where
  "zoom_x s =
     (if data_x_range s > 0 then (base_x_max - base_x_min) / data_x_range s else 1.0)"

definition zoom_y :: "app \<Rightarrow> real" where
  "zoom_y s =
     (if data_y_range s > 0 then (base_y_max - base_y_min) / data_y_range s else 1.0)"

definition fit_to_window :: "app \<Rightarrow> app" where
  "fit_to_window s =
     (if ch1 s = [] \<or> ch2 s = [] then s
      else
        let zoom0 = min (zoom_x s) (zoom_y s);
            zoom = (if zoom0 > 1.0 then 1.0 else zoom0);
            data_x_center = (data_x_min s + data_x_max s) / 2;
            data_y_center = (data_y_min s + data_y_max s) / 2;
            base_x_center = (base_x_min + base_x_max) / 2;
            base_y_center = (base_y_min + base_y_max) / 2
        in s\<lparr>zoom_level := zoom,
             pan_offset_x := data_x_center - base_x_center,
             pan_offset_y := data_y_center - base_y_center\<rparr>)"

definition reset_view :: "app \<Rightarrow> app" where
  "reset_view s = s\<lparr>zoom_level := 1.0, pan_offset_x := 0.0, pan_offset_y := 0.0\<rparr>"

text \<open>
  \<^verbatim>\<open>on_mouse_scroll\<close>; of its arguments only \<^verbatim>\<open>scroll_y\<close> is read.
\<close>

definition on_mouse_scroll :: "real \<Rightarrow> app \<Rightarrow> app" where
  "on_mouse_scroll scroll_y s =
     (if settings_active s then s
      else if \<not> auto_scale s then
        (if scroll_y > 0 then s\<lparr>zoom_level := zoom_level s * 1.2\<rparr>
         else s\<lparr>zoom_level := max 0.1 (zoom_level s / 1.2)\<rparr>)
      else s)"

text \<open>
  The branches of \<^verbatim>\<open>on_key_press\<close> that change the core state. Which key symbol
  selects which branch comes from the configuration and is not modelled.
\<close>

datatype key_action =
  CycleMode | TogglePause | ToggleSingle | ToggleAutoScale | FitWindow | ResetView

fun on_key_press :: "key_action \<Rightarrow> app \<Rightarrow> app" where
  "on_key_press CycleMode s =
     (if settings_active s then s
      else s\<lparr>excitation_mode := (excitation_mode s + 1) mod 3\<rparr>)"
| "on_key_press TogglePause s =
     (if settings_active s then s else s\<lparr>paused := \<not> paused s\<rparr>)"
| "on_key_press ToggleSingle s =
     (if settings_active s then s else s\<lparr>single_channel := \<not> single_channel s\<rparr>)"
| "on_key_press ToggleAutoScale s =
     (if settings_active s then s else s\<lparr>auto_scale := \<not> auto_scale s\<rparr>)"
| "on_key_press FitWindow s =
     (if settings_active s then s
      else if \<not> auto_scale s then fit_to_window s else s)"
| "on_key_press ResetView s =
     (if settings_active s then s
      else if \<not> auto_scale s then reset_view s else s)"


subsection \<open>Double-precision floats\<close>

text \<open>
  The floats of the interpreter are IEEE 754 doubles, and every operation on them
  gives the double nearest to the exact result, a tie going to the even significand.
  \<open>dbl x\<close> is that double for a real \<open>x\<close>: the multiple of the unit in the last
  place of \<open>x\<close> that \<open>round_even\<close> selects. \<open>binade n x e\<close> finds the binary
  exponent of a positive \<open>x\<close> in at most \<open>n\<close> halvings or doublings; 2200 steps
  reach every double, and below the exponent \<open>-1022\<close> the unit stays that of the
  subnormal numbers. Overflow to infinity is left out: every magnitude in the
  statements below is under \<open>2 ^ 15\<close>.
\<close>

definition round_even :: "real \<Rightarrow> int" where
  "round_even x =
     (let f = \<lfloor>x\<rfloor>; r = x - of_int f
      in if r < 1 / 2 then f else if 1 / 2 < r then f + 1
         else if even f then f else f + 1)"

fun binade :: "nat \<Rightarrow> real \<Rightarrow> int \<Rightarrow> int" where
  "binade 0 x e = e"
| "binade (Suc n) x e =
     (if 2 \<le> x then binade n (x / 2) (e + 1)
      else if x < 1 then binade n (2 * x) (e - 1)
      else e)"

definition dbl :: "real \<Rightarrow> real" where
  "dbl x =
     (if x = 0 then 0
      else
        let u = 2 powi (max (binade 2200 \<bar>x\<bar> 0) (- 1022) - 52)
        in of_int (round_even (x / u)) * u)"

subsection \<open>The view in double precision\<close>

text \<open>
  \<^verbatim>\<open>fit_to_window\<close> (lines 1816 to 1866) once more, now with the rounding of each
  operation: an integer that meets a float is converted first, the literal
  \<^verbatim>\<open>0.2\<close> is the double nearest to one fifth, and \<^verbatim>\<open>/\<close> is true division. The
  locals of one axis depend only on the smallest value \<open>lo\<close> and the largest value
  \<open>hi\<close> of that axis: the margin \<^verbatim>\<open>(max - min) * 0.2\<close>, the padded minimum and
  maximum, their difference, the zoom factor \<^verbatim>\<open>base_range / data_range if
  data_range > 0 else 1.0\<close> and the centre \<^verbatim>\<open>(data_min + data_max) / 2\<close>.
\<close>

definition margin_dbl :: "int \<Rightarrow> int \<Rightarrow> real" where
  "margin_dbl lo hi = dbl (dbl (of_int (hi - lo)) * dbl (2 / 10))"

definition data_min_dbl :: "int \<Rightarrow> int \<Rightarrow> real" where
  "data_min_dbl lo hi = dbl (dbl (of_int lo) - margin_dbl lo hi)"

definition data_max_dbl :: "int \<Rightarrow> int \<Rightarrow> real" where
  "data_max_dbl lo hi = dbl (dbl (of_int hi) + margin_dbl lo hi)"

definition data_range_dbl :: "int \<Rightarrow> int \<Rightarrow> real" where
  "data_range_dbl lo hi = dbl (data_max_dbl lo hi - data_min_dbl lo hi)"

definition zoom_dbl :: "real \<Rightarrow> int \<Rightarrow> int \<Rightarrow> real" where
  "zoom_dbl base_range lo hi =
     (if data_range_dbl lo hi > 0 then dbl (base_range / data_range_dbl lo hi) else 1)"

definition data_center_dbl :: "int \<Rightarrow> int \<Rightarrow> real" where
  "data_center_dbl lo hi = dbl (dbl (data_min_dbl lo hi + data_max_dbl lo hi) / 2)"

text \<open>
  The base window, as both \<^verbatim>\<open>fit_to_window\<close> and \<^verbatim>\<open>draw_plot\<close> compute it:
  \<^verbatim>\<open>base_x_max - base_x_min\<close>, \<^verbatim>\<open>y_range / 8\<close>, \<^verbatim>\<open>-y_range * 7 / 8\<close>, their
  difference, and the two centres.
\<close>

definition base_x_range_dbl :: real where
  "base_x_range_dbl = dbl (of_int (ADC_MAX - 0))"

definition base_y_max_dbl :: real where
  "base_y_max_dbl = dbl (dbl (of_int (ADC_MAX - 700)) / dbl 8)"

definition base_y_min_dbl :: real where
  "base_y_min_dbl = dbl (dbl (of_int (- (ADC_MAX - 700) * 7)) / dbl 8)"

definition base_y_range_dbl :: real where
  "base_y_range_dbl = dbl (base_y_max_dbl - base_y_min_dbl)"

definition base_x_center_dbl :: real where
  "base_x_center_dbl = dbl (dbl (of_int (0 + ADC_MAX)) / dbl 2)"

definition base_y_center_dbl :: real where
  "base_y_center_dbl = dbl (dbl (base_y_min_dbl + base_y_max_dbl) / dbl 2)"

definition fit_to_window_dbl :: "app \<Rightarrow> app" where
  "fit_to_window_dbl s =
     (if ch1 s = [] \<or> ch2 s = [] then s
      else
        let zoom_x = zoom_dbl base_x_range_dbl (list_min (all_x s)) (list_max (all_x s));
            zoom_y = zoom_dbl base_y_range_dbl (list_min (all_y s)) (list_max (all_y s));
            zoom0 = min zoom_x zoom_y;
            zoom = (if zoom0 > 1 then 1 else zoom0)
        in s\<lparr>zoom_level := zoom,
             pan_offset_x :=
               dbl (data_center_dbl (list_min (all_x s)) (list_max (all_x s)) - base_x_center_dbl),
             pan_offset_y :=
               dbl (data_center_dbl (list_min (all_y s)) (list_max (all_y s)) - base_y_center_dbl)\<rparr>)"

text \<open>
  The fixed-scale bounds of \<^verbatim>\<open>draw_plot\<close> (lines 1542 to 1558), as
  \<open>(x_min, x_max, y_min, y_max)\<close>; \<open>None\<close> is the \<^verbatim>\<open>ZeroDivisionError\<close> of a
  zero zoom level.
\<close>

definition fixed_bounds_dbl :: "app \<Rightarrow> (real \<times> real \<times> real \<times> real) option" where
  "fixed_bounds_dbl s =
     (if zoom_level s = 0 then None
      else
        let x_range_visible = dbl (base_x_range_dbl / zoom_level s);
            y_range_visible = dbl (base_y_range_dbl / zoom_level s);
            x_center = dbl (base_x_center_dbl + pan_offset_x s);
            y_center = dbl (base_y_center_dbl + pan_offset_y s)
        in Some (dbl (x_center - dbl (x_range_visible / dbl 2)),
                 dbl (x_center + dbl (x_range_visible / dbl 2)),
                 dbl (y_center - dbl (y_range_visible / dbl 2)),
                 dbl (y_center + dbl (y_range_visible / dbl 2))))"

subsection \<open>States the program can reach\<close>

text \<open>
  The start state and the operations above. The connection and the settings window
  belong to collaborators (\<^verbatim>\<open>connect\<close>, the settings dialog): they may change at
  any time.
\<close>

inductive reachable :: "app \<Rightarrow> bool" where
  r_init: "reachable (initial_app port)"
| r_update: "reachable s \<Longrightarrow> reachable (update w s)"
| r_key: "reachable s \<Longrightarrow> reachable (on_key_press k s)"
| r_scroll: "reachable s \<Longrightarrow> reachable (on_mouse_scroll scroll_y s)"
| r_fit: "reachable s \<Longrightarrow> reachable (fit_to_window s)"
| r_reset: "reachable s \<Longrightarrow> reachable (reset_view s)"
| r_serial: "reachable s \<Longrightarrow> reachable (s\<lparr>serial := port\<rparr>)"
| r_settings: "reachable s \<Longrightarrow> reachable (s\<lparr>settings_active := b\<rparr>)"

text \<open>The ranges of the values decoded from a frame.\<close>

definition voltages_ok :: "int list \<Rightarrow> bool" where
  "voltages_ok xs = list_all (\<lambda>v. 0 \<le> v \<and> v \<le> 4095) xs"

definition currents_ok :: "int list \<Rightarrow> bool" where
  "currents_ok xs = list_all (\<lambda>c. - 4095 \<le> c \<and> c \<le> 4095) xs"

definition frame_data_ok :: "app \<Rightarrow> bool" where
  "frame_data_ok s =
     (voltages_ok (ch1_voltage_std s) \<and> voltages_ok (ch2_voltage_std s)
      \<and> voltages_ok (ch1_voltage_weak s) \<and> voltages_ok (ch2_voltage_weak s)
      \<and> voltages_ok (ch1_voltage s) \<and> voltages_ok (ch2_voltage s)
      \<and> currents_ok (ch1_std s) \<and> currents_ok (ch2_std s)
      \<and> currents_ok (ch1_weak s) \<and> currents_ok (ch2_weak s)
      \<and> currents_ok (ch1 s) \<and> currents_ok (ch2 s))"

text \<open>
  The triplet that \<open>decode_frame\<close> builds from 1008 values when no check fails
  (a name for the statements below).
\<close>

definition triplet_of :: "int list \<Rightarrow> triplet" where
  "triplet_of vs =
     \<lparr>t_drive_voltage = every_third vs,
      t_ch1_raw = every_third (drop 1 vs),
      t_ch2_raw = every_third (drop 2 vs),
      t_ch1_current =
        map (\<lambda>i. every_third vs ! i - every_third (drop 1 vs) ! i) [0..<336],
      t_ch2_current =
        map (\<lambda>i. every_third vs ! i - every_third (drop 2 vs) ! i) [0..<336]\<rparr>"

text \<open>
  The value that \<open>fit_to_window\<close> assigns to the zoom level when there is data, and
  the invariant of the view: the floor of the zoom level together with the ranges of
  the stored data (names for the statements below).
\<close>

definition fit_zoom :: "app \<Rightarrow> real" where
  "fit_zoom s = min 1 (min (zoom_x s) (zoom_y s))"

definition view_inv :: "app \<Rightarrow> bool" where
  "view_inv s = (1 / 10 \<le> zoom_level s \<and> frame_data_ok s)"

text \<open>
  The fit factor of one axis in exact arithmetic: the base range over the span of
  the data widened by 20 percent on either side, and 1 for a span of zero. The
  second definition names the zoom level that \<open>fit_to_window_dbl\<close> assigns when
  there is data.
\<close>

definition exact_fit :: "real \<Rightarrow> int \<Rightarrow> int \<Rightarrow> real" where
  "exact_fit base_range lo hi =
     (if hi = lo then 1 else base_range / (real_of_int (hi - lo) * (14 / 10)))"

definition fit_zoom_dbl :: "app \<Rightarrow> real" where
  "fit_zoom_dbl s =
     (let zoom0 = min (zoom_dbl 2800 (list_min (all_x s)) (list_max (all_x s)))
                      (zoom_dbl 2100 (list_min (all_y s)) (list_max (all_y s)))
      in if zoom0 > 1 then 1 else zoom0)"

subsection \<open>Example inputs\<close>

text \<open>
  Concrete inputs for the examples below: an open port, a line that delivers a whole
  frame of zero bytes at the first poll, a line that delivers 100 bytes and then runs
  into the deadline, and the start state with an open port, put into a given
  excitation mode with a given value of the toggle.
\<close>

definition open_port :: serial_port where
  "open_port = \<lparr>is_open = True\<rparr>"

definition frame_wire :: wire where
  "frame_wire = \<lparr>command_fault = False, polls = [Avail (replicate 2016 0)]\<rparr>"

definition timeout_wire :: wire where
  "timeout_wire = \<lparr>command_fault = False, polls = [Avail (replicate 100 0), Expired]\<rparr>"

definition mode_app :: "nat \<Rightarrow> bool \<Rightarrow> app" where
  "mode_app m b = (initial_app (Some open_port))\<lparr>excitation_mode := m, alt_use_weak := b\<rparr>"


section \<open>Properties\<close>

subsection \<open>Sample words and the frame decoder\<close>

lemma unpack_H_plus: "unpack_H lo hi = push_bit 8 (ucast hi) + ucast lo"
proof -
  have "push_bit 8 (ucast hi :: 16 word) AND ucast lo = 0"
    by (rule bit_word_eqI) (auto simp: bit_simps dest: bit_imp_le_length)
  then show ?thesis
    unfolding unpack_H_def by (simp add: disjunctive_add_eq_or)
qed

lemma uint_unpack_H: "uint (unpack_H lo hi) = uint lo + 256 * uint hi"
proof -
  have lo: "uint lo < 256" using uint_bounded [of lo] by simp
  have hi: "uint hi < 256" using uint_bounded [of hi] by simp
  have a: "uint (ucast lo :: 16 word) = uint lo"
    by (simp add: uint_up_ucast is_up)
  have b: "uint (ucast hi :: 16 word) = uint hi"
    by (simp add: uint_up_ucast is_up)
  have c: "uint (push_bit 8 (ucast hi :: 16 word)) = 256 * uint hi"
    using hi uint_ge_0 [of hi] by (simp add: push_bit_eq_mult uint_word_ariths b)
  show ?thesis
    unfolding unpack_H_plus using lo hi
    by (simp add: uint_word_ariths a c)
qed

lemma sample_word_low12:
  "sample_word lo hi = (uint lo + 256 * uint hi) mod 4096"
proof -
  let ?w = "unpack_H lo hi"
  have m: "(0x0FFF :: 16 word) = mask 12" by (simp add: mask_eq_decr_exp)
  have "uint (?w AND mask 12) = take_bit 16 (uint ?w mod 2 ^ 12)"
    by (simp add: and_mask_mod_2p uint_word_of_int_eq)
  also have "\<dots> = uint ?w mod 2 ^ 12"
    using uint_ge_0 [of ?w] by (simp add: take_bit_eq_mod)
  finally show ?thesis
    by (simp add: sample_word_def m uint_unpack_H)
qed

lemma sample_word_range: "0 \<le> sample_word lo hi \<and> sample_word lo hi \<le> 4095"
  by (simp add: sample_word_low12)

lemma parse_values_even:
  "even (length data) \<Longrightarrow> \<exists>vs. parse_values data = Inr vs \<and> length vs = length data div 2"
  by (induction data rule: parse_values.induct) auto

lemma parse_values_range:
  "parse_values data = Inr vs \<Longrightarrow> v \<in> set vs \<Longrightarrow> 0 \<le> v \<and> v \<le> 4095"
  by (induction data arbitrary: vs rule: parse_values.induct)
     (auto split: sum.splits simp: sample_word_range)

lemma parse_values_nth:
  "parse_values data = Inr vs \<Longrightarrow> i < length vs \<Longrightarrow>
     vs ! i = sample_word (data ! (2 * i)) (data ! (2 * i + 1))"
proof (induction data arbitrary: vs i rule: parse_values.induct)
  case 1
  then show ?case by simp
next
  case (2 b)
  then show ?case by simp
next
  case (3 lo hi rest)
  then show ?case by (cases i) (auto split: sum.splits)
qed

lemma length_every_third: "length (every_third xs) = (length xs + 2) div 3"
  by (induction xs rule: every_third.induct) auto

lemma every_third_nth: "3 * i < length xs \<Longrightarrow> every_third xs ! i = xs ! (3 * i)"
proof (induction xs arbitrary: i rule: every_third.induct)
  case 1
  then show ?case by simp
next
  case (2 x xs)
  then show ?case by (cases i) (auto simp: add.commute)
qed

lemma set_every_third: "set (every_third xs) \<subseteq> set xs"
proof (induction xs rule: every_third.induct)
  case 1
  show ?case by simp
next
  case (2 x xs)
  have "set (drop 2 xs) \<subseteq> set xs" by (rule set_drop_subset)
  with 2 show ?case by auto
qed

lemma current_of_ok:
  "length raw = length dv \<Longrightarrow>
     current_of dv raw = Inr (map (\<lambda>i. dv ! i - raw ! i) [0..<length dv])"
  by (simp add: current_of_def)

lemma decode_frame_ok:
  assumes "length data = 2016"
  shows "\<exists>vs. parse_values data = Inr vs \<and> length vs = 1008
            \<and> decode_frame data = Inr (triplet_of vs)"
proof -
  from assms obtain vs where vs: "parse_values data = Inr vs" "length vs = 1008"
    using parse_values_even [of data] by auto
  have l0: "length (every_third vs) = 336"
    and l1: "length (every_third (drop 1 vs)) = 336"
    and l2: "length (every_third (drop 2 vs)) = 336"
    using vs(2) by (simp_all add: length_every_third)
  have "decode_frame data = Inr (triplet_of vs)"
    using assms vs l0 l1 l2
    by (simp add: decode_frame_def Let_def current_of_ok triplet_of_def)
  with vs show ?thesis by blast
qed

lemma decode_frame_Inr_iff: "(\<exists>t. decode_frame data = Inr t) \<longleftrightarrow> length data = 2016"
  using decode_frame_ok [of data] by (auto simp: decode_frame_def)

text \<open>
  Claim C1. A frame of exactly 2016 bytes decodes: the three sequences
  \<open>drive_voltage\<close>, \<open>ch1_raw\<close>, \<open>ch2_raw\<close> have 336 elements each, element
  \<open>i\<close> of them is the masked little-endian word number \<open>3 * i\<close>, \<open>3 * i + 1\<close>,
  \<open>3 * i + 2\<close> of the frame (bytes \<open>6 * i\<close> to \<open>6 * i + 5\<close>), and each current
  plus its raw channel value gives the drive voltage back.
\<close>

theorem decode_frame_triplet:
  assumes "length data = 2016"
  shows "\<exists>t. decode_frame data = Inr t
     \<and> length (t_drive_voltage t) = 336 \<and> length (t_ch1_raw t) = 336
     \<and> length (t_ch2_raw t) = 336
     \<and> length (t_ch1_current t) = 336 \<and> length (t_ch2_current t) = 336
     \<and> (\<forall>i<336.
          t_drive_voltage t ! i = sample_word (data ! (6 * i)) (data ! (6 * i + 1))
          \<and> t_ch1_raw t ! i = sample_word (data ! (6 * i + 2)) (data ! (6 * i + 3))
          \<and> t_ch2_raw t ! i = sample_word (data ! (6 * i + 4)) (data ! (6 * i + 5))
          \<and> t_ch1_current t ! i + t_ch1_raw t ! i = t_drive_voltage t ! i
          \<and> t_ch2_current t ! i + t_ch2_raw t ! i = t_drive_voltage t ! i)"
proof -
  from decode_frame_ok [OF assms] obtain vs where
    vs: "parse_values data = Inr vs" "length vs = 1008"
    and d: "decode_frame data = Inr (triplet_of vs)" by blast
  have len: "length (t_drive_voltage (triplet_of vs)) = 336"
    "length (t_ch1_raw (triplet_of vs)) = 336"
    "length (t_ch2_raw (triplet_of vs)) = 336"
    "length (t_ch1_current (triplet_of vs)) = 336"
    "length (t_ch2_current (triplet_of vs)) = 336"
    using vs(2) by (simp_all add: triplet_of_def length_every_third)
  have pt: "t_drive_voltage (triplet_of vs) ! i = sample_word (data ! (6 * i)) (data ! (6 * i + 1))
      \<and> t_ch1_raw (triplet_of vs) ! i = sample_word (data ! (6 * i + 2)) (data ! (6 * i + 3))
      \<and> t_ch2_raw (triplet_of vs) ! i = sample_word (data ! (6 * i + 4)) (data ! (6 * i + 5))
      \<and> t_ch1_current (triplet_of vs) ! i + t_ch1_raw (triplet_of vs) ! i
          = t_drive_voltage (triplet_of vs) ! i
      \<and> t_ch2_current (triplet_of vs) ! i + t_ch2_raw (triplet_of vs) ! i
          = t_drive_voltage (triplet_of vs) ! i" if i: "i < 336" for i
  proof -
    have a: "every_third vs ! i = vs ! (3 * i)"
      using i vs(2) by (simp add: every_third_nth)
    have b: "every_third (drop 1 vs) ! i = vs ! (3 * i + 1)"
      using i vs(2) by (simp add: every_third_nth)
    have c: "every_third (drop 2 vs) ! i = vs ! (3 * i + 2)"
      using i vs(2) by (simp add: every_third_nth)
    have a': "vs ! (3 * i) = sample_word (data ! (6 * i)) (data ! (6 * i + 1))"
    proof -
      have e: "2 * (3 * i) = 6 * i"
        by simp
      have "3 * i < length vs" using i vs(2) by simp
      from parse_values_nth [OF vs(1) this] show ?thesis unfolding e .
    qed
    have b': "vs ! (3 * i + 1) = sample_word (data ! (6 * i + 2)) (data ! (6 * i + 3))"
    proof -
      have e: "2 * (3 * i + 1) = 6 * i + 2" "6 * i + 2 + 1 = 6 * i + 3"
        by simp_all
      have "3 * i + 1 < length vs" using i vs(2) by simp
      from parse_values_nth [OF vs(1) this] show ?thesis unfolding e .
    qed
    have c': "vs ! (3 * i + 2) = sample_word (data ! (6 * i + 4)) (data ! (6 * i + 5))"
    proof -
      have e: "2 * (3 * i + 2) = 6 * i + 4" "6 * i + 4 + 1 = 6 * i + 5"
        by simp_all
      have "3 * i + 2 < length vs" using i vs(2) by simp
      from parse_values_nth [OF vs(1) this] show ?thesis unfolding e .
    qed
    show ?thesis
      using i a b c a' b' c' by (simp add: triplet_of_def)
  qed
  show ?thesis
    by (intro exI [of _ "triplet_of vs"] conjI allI impI) (use d len pt in blast)+
qed

theorem decode_frame_triplet_witness:
  "length (replicate 2016 (0 :: byte)) = 2016
   \<and> (\<exists>t. decode_frame (replicate 2016 0) = Inr t
     \<and> length (t_drive_voltage t) = 336 \<and> length (t_ch1_raw t) = 336
     \<and> length (t_ch2_raw t) = 336
     \<and> length (t_ch1_current t) = 336 \<and> length (t_ch2_current t) = 336
     \<and> (\<forall>i<336.
          t_drive_voltage t ! i
            = sample_word (replicate 2016 0 ! (6 * i)) (replicate 2016 0 ! (6 * i + 1))
          \<and> t_ch1_raw t ! i
            = sample_word (replicate 2016 0 ! (6 * i + 2)) (replicate 2016 0 ! (6 * i + 3))
          \<and> t_ch2_raw t ! i
            = sample_word (replicate 2016 0 ! (6 * i + 4)) (replicate 2016 0 ! (6 * i + 5))
          \<and> t_ch1_current t ! i + t_ch1_raw t ! i = t_drive_voltage t ! i
          \<and> t_ch2_current t ! i + t_ch2_raw t ! i = t_drive_voltage t ! i))"
proof -
  have h: "length (replicate 2016 (0 :: byte)) = 2016" by simp
  show ?thesis by (rule conjI [OF h decode_frame_triplet [OF h]])
qed

lemma decode_frame_length_error:
  "length data \<noteq> 2016 \<Longrightarrow> decode_frame data = Inl FrameLengthError"
  by (simp add: decode_frame_def)

lemma decode_frame_never_count_error: "decode_frame data \<noteq> Inl FrameCountError"
proof (cases "length data = 2016")
  case True
  from decode_frame_ok [OF True] show ?thesis by auto
next
  case False
  then show ?thesis by (simp add: decode_frame_length_error)
qed

lemma read_loop_length:
  "read_loop ps data = Inr data' \<Longrightarrow> length data \<le> 2016 \<Longrightarrow> length data' \<le> 2016"
  by (induction ps data rule: read_loop.induct) (auto split: if_splits poll.splits)

subsection \<open>Outcomes of acquire\<close>

lemma decide_command_keeps:
  "decide_command s = (c, b, s1) \<Longrightarrow>
     std_buffers s1 = std_buffers s \<and> weak_buffers s1 = weak_buffers s
     \<and> active_series s1 = active_series s
     \<and> last_mode_was_weak s1 = last_mode_was_weak s
     \<and> excitation_mode s1 = excitation_mode s \<and> serial s1 = serial s
     \<and> zoom_level s1 = zoom_level s \<and> pan_offset_x s1 = pan_offset_x s
     \<and> pan_offset_y s1 = pan_offset_y s"
  by (auto simp: decide_command_def std_buffers_def weak_buffers_def active_series_def
      split: if_splits)

lemma acquire_not_connected:
  "\<not> connected s \<Longrightarrow> acquire w s = (Failed NoConnection, s)"
  by (simp add: acquire_def)

lemma acquire_Failed:
  "acquire w s = (Failed e, s') \<Longrightarrow>
     (\<not> connected s \<and> s' = s) \<or> (connected s \<and> s' = snd (snd (decide_command s)))"
  by (cases "decide_command s")
     (auto simp: acquire_def split: sum.splits if_splits)

lemma acquire_Acquired:
  "acquire w s = (Acquired, s') \<Longrightarrow>
     connected s \<and> \<not> command_fault w
     \<and> (\<exists>data t. read_loop (polls w) [] = Inr data \<and> decode_frame data = Inr t
          \<and> s' = set_active (fst (snd (decide_command s)))
                 (store_data (fst (snd (decide_command s))) t (snd (snd (decide_command s)))))"
  by (cases "decide_command s")
     (auto simp: acquire_def split: sum.splits if_splits)

lemma acquire_succeeds:
  "connected s \<Longrightarrow> \<not> command_fault w \<Longrightarrow> read_loop (polls w) [] = Inr data \<Longrightarrow>
     length data = 2016 \<Longrightarrow> fst (acquire w s) = Acquired"
  using decode_frame_ok [of data]
  by (cases "decide_command s") (auto simp: acquire_def)

lemma acquire_fails:
  "connected s \<Longrightarrow> \<not> command_fault w \<Longrightarrow> read_loop (polls w) [] = Inr data \<Longrightarrow>
     length data \<noteq> 2016 \<Longrightarrow> fst (acquire w s) = Failed FrameLengthError"
  by (cases "decide_command s") (auto simp: acquire_def decode_frame_length_error)

lemma acquire_fault:
  "connected s \<Longrightarrow> command_fault w \<or> read_loop (polls w) [] = Inl e \<Longrightarrow>
     \<exists>e'. fst (acquire w s) = Failed e'"
  by (cases "decide_command s") (auto simp: acquire_def split: sum.splits)

lemma acquire_failure_store:
  assumes "acquire w s = (Failed e, s')"
  shows "std_buffers s' = std_buffers s \<and> weak_buffers s' = weak_buffers s
     \<and> active_series s' = active_series s
     \<and> last_mode_was_weak s' = last_mode_was_weak s"
proof -
  obtain c b s1 where d: "decide_command s = (c, b, s1)"
    by (cases "decide_command s") auto
  from acquire_Failed [OF assms] d have "s' = s \<or> s' = s1" by auto
  with decide_command_keeps [OF d] show ?thesis by auto
qed

lemma connected_mode_app: "connected (mode_app m b)"
  by (simp add: connected_def mode_app_def initial_app_def open_port_def)

lemma read_loop_frame_wire: "read_loop (polls frame_wire) [] = Inr (replicate 2016 0)"
  by (simp add: frame_wire_def)

lemma read_loop_timeout_wire: "read_loop (polls timeout_wire) [] = Inr (replicate 100 0)"
  by (simp add: timeout_wire_def)



lemma acquire_frame_wire:
  "connected s \<Longrightarrow> acquire frame_wire s = (Acquired, snd (acquire frame_wire s))"
proof -
  assume c: "connected s"
  have "\<not> command_fault frame_wire" by (simp add: frame_wire_def)
  from acquire_succeeds [OF c this read_loop_frame_wire]
  have "fst (acquire frame_wire s) = Acquired" by simp
  then show ?thesis by (simp add: prod_eq_iff)
qed

lemma acquire_timeout_wire:
  "connected s \<Longrightarrow> fst (acquire timeout_wire s) = Failed FrameLengthError"
proof -
  assume c: "connected s"
  have "\<not> command_fault timeout_wire" by (simp add: timeout_wire_def)
  from acquire_fails [OF c this read_loop_timeout_wire] show ?thesis by simp
qed

text \<open>
  Claim C3. With an open connection, a transport exception, a read loop that ends
  with fewer than 2016 bytes and any other received length different from 2016 make
  \<open>acquire\<close> return failure; and whenever \<open>acquire\<close> returns failure, the five
  Strong buffers, the five Weak buffers, the active series and the last-variant flag
  are what they were before the call.
\<close>

theorem acquire_failure_atomic:
  "(connected s \<and> (command_fault w \<or> (\<exists>e. read_loop (polls w) [] = Inl e)
       \<or> (\<exists>data. read_loop (polls w) [] = Inr data \<and> length data \<noteq> 2016))
     \<longrightarrow> (\<exists>e. fst (acquire w s) = Failed e))
   \<and> (\<forall>e. fst (acquire w s) = Failed e \<longrightarrow>
         std_buffers (snd (acquire w s)) = std_buffers s
         \<and> weak_buffers (snd (acquire w s)) = weak_buffers s
         \<and> active_series (snd (acquire w s)) = active_series s
         \<and> last_mode_was_weak (snd (acquire w s)) = last_mode_was_weak s)"
proof (intro conjI impI allI)
  assume a: "connected s \<and> (command_fault w \<or> (\<exists>e. read_loop (polls w) [] = Inl e)
       \<or> (\<exists>data. read_loop (polls w) [] = Inr data \<and> length data \<noteq> 2016))"
  then show "\<exists>e. fst (acquire w s) = Failed e"
    using acquire_fault [of s w] acquire_fails [of s w] by blast
next
  fix e
  assume "fst (acquire w s) = Failed e"
  then have "acquire w s = (Failed e, snd (acquire w s))"
    by (simp add: prod_eq_iff)
  from acquire_failure_store [OF this]
  show "std_buffers (snd (acquire w s)) = std_buffers s"
    "weak_buffers (snd (acquire w s)) = weak_buffers s"
    "active_series (snd (acquire w s)) = active_series s"
    "last_mode_was_weak (snd (acquire w s)) = last_mode_was_weak s"
    by simp_all
qed

theorem acquire_failure_atomic_witness:
  "connected (mode_app 2 True)
   \<and> read_loop (polls timeout_wire) [] = Inr (replicate 100 0)
   \<and> fst (acquire timeout_wire (mode_app 2 True)) = Failed FrameLengthError
   \<and> std_buffers (snd (acquire timeout_wire (mode_app 2 True))) = std_buffers (mode_app 2 True)
   \<and> weak_buffers (snd (acquire timeout_wire (mode_app 2 True))) = weak_buffers (mode_app 2 True)
   \<and> active_series (snd (acquire timeout_wire (mode_app 2 True))) = active_series (mode_app 2 True)
   \<and> last_mode_was_weak (snd (acquire timeout_wire (mode_app 2 True)))
       = last_mode_was_weak (mode_app 2 True)"
  using acquire_failure_atomic [of "mode_app 2 True" timeout_wire]
    acquire_timeout_wire [OF connected_mode_app [of 2 True]]
    connected_mode_app [of 2 True] read_loop_timeout_wire
  by simp

text \<open>
  Claim C10. When the connection object is absent or closed, \<open>acquire\<close> returns
  failure and the whole application state, the toggle \<open>alt_use_weak\<close> included, is
  unchanged, in every excitation mode.
\<close>

theorem acquire_without_connection:
  "serial s = None \<or> (\<exists>port. serial s = Some port \<and> \<not> is_open port) \<Longrightarrow>
     acquire w s = (Failed NoConnection, s)"
  by (rule acquire_not_connected) (auto simp: connected_def)

theorem acquire_without_connection_witness:
  "serial ((initial_app None)\<lparr>excitation_mode := 2\<rparr>) = None
   \<and> acquire frame_wire ((initial_app None)\<lparr>excitation_mode := 2\<rparr>)
       = (Failed NoConnection, (initial_app None)\<lparr>excitation_mode := 2\<rparr>)"
proof -
  have h: "serial ((initial_app None)\<lparr>excitation_mode := 2\<rparr>) = None"
    by (simp add: initial_app_def)
  from acquire_without_connection [OF disjI1 [OF h]] h show ?thesis by simp
qed

subsection \<open>The toggle of the alternating mode\<close>

text \<open>
  Claim C2 says that the toggle keeps its value when the acquisition fails. In
  alternating mode, with an open connection and a device that sends nothing before
  the deadline, \<open>acquire\<close> fails and the toggle has flipped: the flip is part of
  choosing the command, before any byte is written or read.
\<close>

theorem alt_toggle_flips_on_failure:
  "excitation_mode ((initial_app (Some \<lparr>is_open = True\<rparr>))\<lparr>excitation_mode := 2\<rparr>) = 2
   \<and> fst (acquire \<lparr>command_fault = False, polls = [Expired]\<rparr>
            ((initial_app (Some \<lparr>is_open = True\<rparr>))\<lparr>excitation_mode := 2\<rparr>))
       = Failed FrameLengthError
   \<and> alt_use_weak (snd (acquire \<lparr>command_fault = False, polls = [Expired]\<rparr>
            ((initial_app (Some \<lparr>is_open = True\<rparr>))\<lparr>excitation_mode := 2\<rparr>)))
       \<noteq> alt_use_weak ((initial_app (Some \<lparr>is_open = True\<rparr>))\<lparr>excitation_mode := 2\<rparr>)"
  by (simp add: acquire_def connected_def decide_command_def initial_app_def
      decode_frame_def)

lemma decide_command_alt:
  "excitation_mode s \<noteq> 0 \<Longrightarrow> excitation_mode s \<noteq> 1 \<Longrightarrow>
     decide_command s =
       (if alt_use_weak s then CHR ''W'' else CHR ''T'', alt_use_weak s,
        s\<lparr>alt_use_weak := \<not> alt_use_weak s\<rparr>)"
  by (simp add: decide_command_def)

lemma acquire_state:
  "connected s \<Longrightarrow>
     (\<exists>e. acquire w s = (Failed e, snd (snd (decide_command s))))
     \<or> (\<exists>t. acquire w s = (Acquired,
           set_active (fst (snd (decide_command s)))
             (store_data (fst (snd (decide_command s))) t (snd (snd (decide_command s))))))"
  by (cases "decide_command s") (auto simp: acquire_def split: sum.splits)

lemma store_keeps_toggle:
  "alt_use_weak (set_active b (store_data b t s)) = alt_use_weak s"
  "excitation_mode (set_active b (store_data b t s)) = excitation_mode s"
  by (simp_all add: set_active_def store_data_def)

lemma acquire_alt_toggle:
  assumes "excitation_mode s = 2" and c: "connected s"
  shows "alt_use_weak (snd (acquire w s)) = (\<not> alt_use_weak s)"
proof -
  have d: "snd (snd (decide_command s)) = s\<lparr>alt_use_weak := \<not> alt_use_weak s\<rparr>"
    using assms by (simp add: decide_command_alt)
  from acquire_state [OF c, of w] show ?thesis
    by (auto simp: d store_keeps_toggle)
qed


text \<open>
  Claim C2, amended. In alternating mode the toggle flips on every call of
  \<open>acquire\<close> made with an open connection, whether the call succeeds or fails; it
  keeps its value when no connection is open.
\<close>

theorem alt_toggle_flips_every_attempt:
  assumes "excitation_mode s = 2"
  shows "(connected s \<longrightarrow> alt_use_weak (snd (acquire w s)) = (\<not> alt_use_weak s))
       \<and> (\<not> connected s \<longrightarrow> alt_use_weak (snd (acquire w s)) = alt_use_weak s)"
  using acquire_alt_toggle [OF assms, of w] by (simp add: acquire_not_connected)

theorem alt_toggle_flips_every_attempt_witness:
  "excitation_mode (mode_app 2 False) = 2 \<and> connected (mode_app 2 False)
   \<and> fst (acquire timeout_wire (mode_app 2 False)) = Failed FrameLengthError
   \<and> alt_use_weak (snd (acquire timeout_wire (mode_app 2 False)))
       = (\<not> alt_use_weak (mode_app 2 False))
   \<and> fst (acquire frame_wire (mode_app 2 False)) = Acquired
   \<and> alt_use_weak (snd (acquire frame_wire (mode_app 2 False)))
       = (\<not> alt_use_weak (mode_app 2 False))"
proof -
  have m: "excitation_mode (mode_app 2 False) = 2"
    by (simp add: mode_app_def initial_app_def)
  have c: "connected (mode_app 2 False)" by (rule connected_mode_app)
  have f: "fst (acquire frame_wire (mode_app 2 False)) = Acquired"
    using acquire_frame_wire [OF c] by (simp add: prod_eq_iff)
  show ?thesis
    using alt_toggle_flips_every_attempt [OF m, of timeout_wire]
      alt_toggle_flips_every_attempt [OF m, of frame_wire]
      acquire_timeout_wire [OF c] m c f
    by simp
qed

subsection \<open>The sample store\<close>

lemma acquire_success_state:
  assumes "acquire w s = (Acquired, s')"
  shows "\<exists>t. s' = set_active (fst (snd (decide_command s)))
                 (store_data (fst (snd (decide_command s))) t (snd (snd (decide_command s))))"
  using acquire_Acquired [OF assms] by blast

lemma store_weak_frame:
  "std_buffers (set_active True (store_data True t s)) = std_buffers s"
  "last_mode_was_weak (set_active True (store_data True t s))"
  "active_series (set_active True (store_data True t s))
     = weak_buffers (set_active True (store_data True t s))"
  by (simp_all add: set_active_def store_data_def std_buffers_def weak_buffers_def
      active_series_def)

lemma store_std_frame:
  "weak_buffers (set_active False (store_data False t s)) = weak_buffers s"
  "\<not> last_mode_was_weak (set_active False (store_data False t s))"
  "active_series (set_active False (store_data False t s))
     = std_buffers (set_active False (store_data False t s))"
  by (simp_all add: set_active_def store_data_def std_buffers_def weak_buffers_def
      active_series_def)

lemma acquire_success_frame:
  assumes "acquire w s = (Acquired, s')"
  shows "last_mode_was_weak s' = fst (snd (decide_command s))"
    and "last_mode_was_weak s' \<Longrightarrow> std_buffers s' = std_buffers s"
    and "\<not> last_mode_was_weak s' \<Longrightarrow> weak_buffers s' = weak_buffers s"
    and "active_series s' = (if last_mode_was_weak s' then weak_buffers s' else std_buffers s')"
proof -
  obtain c b s1 where d: "decide_command s = (c, b, s1)"
    by (cases "decide_command s") auto
  from acquire_success_state [OF assms] d obtain t
    where s': "s' = set_active b (store_data b t s1)" by auto
  note k = decide_command_keeps [OF d]
  show "last_mode_was_weak s' = fst (snd (decide_command s))"
    using s' d store_weak_frame(2) [of t s1] store_std_frame(2) [of t s1]
    by (cases b) simp_all
  show "std_buffers s' = std_buffers s" if "last_mode_was_weak s'"
    using that s' k store_weak_frame(1) [of t s1] store_std_frame(2) [of t s1]
    by (cases b) simp_all
  show "weak_buffers s' = weak_buffers s" if "\<not> last_mode_was_weak s'"
    using that s' k store_std_frame(1) [of t s1] store_weak_frame(2) [of t s1]
    by (cases b) simp_all
  show "active_series s' = (if last_mode_was_weak s' then weak_buffers s' else std_buffers s')"
    using s' store_weak_frame [of t s1] store_std_frame [of t s1]
    by (cases b) simp_all
qed

text \<open>
  Claim C8. A successful acquisition sets the last-variant flag to the variant it
  stored; when that variant is Weak the five Strong buffers are unchanged, and when
  it is Strong the five Weak buffers are unchanged.
\<close>

theorem store_overwrites_one_variant:
  assumes "acquire w s = (Acquired, s')"
  shows "last_mode_was_weak s' = fst (snd (decide_command s))
       \<and> (last_mode_was_weak s' \<longrightarrow> std_buffers s' = std_buffers s)
       \<and> (\<not> last_mode_was_weak s' \<longrightarrow> weak_buffers s' = weak_buffers s)"
  using acquire_success_frame(1,2,3) [OF assms] by blast

theorem store_overwrites_one_variant_witness:
  "acquire frame_wire (mode_app 1 False) = (Acquired, snd (acquire frame_wire (mode_app 1 False)))
   \<and> last_mode_was_weak (snd (acquire frame_wire (mode_app 1 False)))
   \<and> std_buffers (snd (acquire frame_wire (mode_app 1 False))) = std_buffers (mode_app 1 False)
   \<and> acquire frame_wire (mode_app 0 False) = (Acquired, snd (acquire frame_wire (mode_app 0 False)))
   \<and> \<not> last_mode_was_weak (snd (acquire frame_wire (mode_app 0 False)))
   \<and> weak_buffers (snd (acquire frame_wire (mode_app 0 False))) = weak_buffers (mode_app 0 False)"
proof -
  have a1: "acquire frame_wire (mode_app 1 False)
      = (Acquired, snd (acquire frame_wire (mode_app 1 False)))"
    by (rule acquire_frame_wire [OF connected_mode_app])
  have a0: "acquire frame_wire (mode_app 0 False)
      = (Acquired, snd (acquire frame_wire (mode_app 0 False)))"
    by (rule acquire_frame_wire [OF connected_mode_app])
  have d1: "fst (snd (decide_command (mode_app 1 False)))"
    by (simp add: decide_command_def mode_app_def initial_app_def)
  have d0: "\<not> fst (snd (decide_command (mode_app 0 False)))"
    by (simp add: decide_command_def mode_app_def initial_app_def)
  show ?thesis
    using store_overwrites_one_variant [OF a1] store_overwrites_one_variant [OF a0]
      a1 a0 d1 d0
    by simp
qed



subsection \<open>When decoding fails\<close>

text \<open>
  Claim C4. Decoding fails exactly when the received bytes are not 2016 in number:
  any other length gives the length error, a length of 2016 gives a triplet, and the
  count error never occurs. Inside \<open>acquire\<close>, with an open connection and no
  transport fault, the call succeeds exactly when the read loop ended with 2016
  bytes, and otherwise it fails and stores nothing.
\<close>

theorem decode_fails_iff_wrong_length:
  "(length data \<noteq> 2016 \<longrightarrow> decode_frame data = Inl FrameLengthError)
   \<and> (length data = 2016 \<longrightarrow> (\<exists>t. decode_frame data = Inr t))
   \<and> decode_frame data \<noteq> Inl FrameCountError
   \<and> (connected s \<and> \<not> command_fault w \<and> read_loop (polls w) [] = Inr data \<longrightarrow>
        (fst (acquire w s) = Acquired) = (length data = 2016)
        \<and> (length data \<noteq> 2016 \<longrightarrow>
              fst (acquire w s) = Failed FrameLengthError
              \<and> std_buffers (snd (acquire w s)) = std_buffers s
              \<and> weak_buffers (snd (acquire w s)) = weak_buffers s
              \<and> active_series (snd (acquire w s)) = active_series s))"
proof (intro conjI impI)
  show "decode_frame data = Inl FrameLengthError" if "length data \<noteq> 2016"
    using that by (rule decode_frame_length_error)
  show "\<exists>t. decode_frame data = Inr t" if "length data = 2016"
    using that by (simp add: decode_frame_Inr_iff)
  show "decode_frame data \<noteq> Inl FrameCountError"
    by (rule decode_frame_never_count_error)
next
  assume a: "connected s \<and> \<not> command_fault w \<and> read_loop (polls w) [] = Inr data"
  show "(fst (acquire w s) = Acquired) = (length data = 2016)"
  proof (cases "length data = 2016")
    case True
    with a acquire_succeeds [of s w data] show ?thesis by simp
  next
    case False
    with a acquire_fails [of s w data] show ?thesis by simp
  qed
  assume l: "length data \<noteq> 2016"
  show f: "fst (acquire w s) = Failed FrameLengthError"
    using a l acquire_fails [of s w data] by simp
  then have "acquire w s = (Failed FrameLengthError, snd (acquire w s))"
    by (simp add: prod_eq_iff)
  from acquire_failure_store [OF this]
  show "std_buffers (snd (acquire w s)) = std_buffers s"
    "weak_buffers (snd (acquire w s)) = weak_buffers s"
    "active_series (snd (acquire w s)) = active_series s"
    by simp_all
qed

theorem decode_fails_iff_wrong_length_witness:
  "decode_frame [] = Inl FrameLengthError
   \<and> decode_frame (replicate 2015 0) = Inl FrameLengthError
   \<and> decode_frame (replicate 2017 0) = Inl FrameLengthError
   \<and> (\<exists>t. decode_frame (replicate 2016 0) = Inr t)
   \<and> fst (acquire frame_wire (mode_app 0 False)) = Acquired
   \<and> fst (acquire timeout_wire (mode_app 0 False)) = Failed FrameLengthError
   \<and> std_buffers (snd (acquire timeout_wire (mode_app 0 False))) = std_buffers (mode_app 0 False)
   \<and> weak_buffers (snd (acquire timeout_wire (mode_app 0 False))) = weak_buffers (mode_app 0 False)
   \<and> active_series (snd (acquire timeout_wire (mode_app 0 False)))
       = active_series (mode_app 0 False)"
proof -
  have c: "connected (mode_app 0 False)" by (rule connected_mode_app)
  have f: "\<not> command_fault frame_wire" "\<not> command_fault timeout_wire"
    by (simp_all add: frame_wire_def timeout_wire_def)
  show ?thesis
    using decode_fails_iff_wrong_length [of "[]" s w]
      decode_fails_iff_wrong_length [of "replicate 2015 0" s w]
      decode_fails_iff_wrong_length [of "replicate 2017 0" s w]
      decode_fails_iff_wrong_length [of "replicate 2016 0" "mode_app 0 False" frame_wire]
      decode_fails_iff_wrong_length [of "replicate 100 0" "mode_app 0 False" timeout_wire]
      c f read_loop_frame_wire read_loop_timeout_wire
    by simp
qed

subsection \<open>Masking\<close>

text \<open>
  Claim C9. A sample word is the low 12 bits of the little-endian 16-bit word of its
  two bytes, so it lies between 0 and 4095; the word \<open>0xFFFF\<close> gives \<open>0x0FFF\<close>
  and the word \<open>0x1000\<close> gives 0; and every value that the parse loop produces is
  the sample word of its two bytes.
\<close>

theorem sample_word_masked:
  "sample_word lo hi = (uint lo + 256 * uint hi) mod 4096
   \<and> 0 \<le> sample_word lo hi \<and> sample_word lo hi \<le> 4095
   \<and> sample_word 0xFF 0xFF = 0x0FFF
   \<and> sample_word 0x00 0x10 = 0x0000
   \<and> (\<forall>vs. parse_values data = Inr vs \<longrightarrow>
         (\<forall>i<length vs. vs ! i = sample_word (data ! (2 * i)) (data ! (2 * i + 1))
             \<and> 0 \<le> vs ! i \<and> vs ! i \<le> 4095))"
proof (intro conjI allI impI)
  show "sample_word lo hi = (uint lo + 256 * uint hi) mod 4096"
    by (rule sample_word_low12)
  show "0 \<le> sample_word lo hi" "sample_word lo hi \<le> 4095"
    using sample_word_range [of lo hi] by simp_all
  show "sample_word 0xFF 0xFF = 0x0FFF" "sample_word 0x00 0x10 = 0x0000"
    by (simp_all add: sample_word_low12)
next
  fix vs i
  assume p: "parse_values data = Inr vs" and i: "i < length vs"
  show "vs ! i = sample_word (data ! (2 * i)) (data ! (2 * i + 1))"
    by (rule parse_values_nth [OF p i])
  then show "0 \<le> vs ! i" "vs ! i \<le> 4095"
    using sample_word_range [of "data ! (2 * i)" "data ! (2 * i + 1)"] by simp_all
qed

theorem sample_word_masked_witness:
  "parse_values [0xFF, 0xFF, 0x00, 0x10, 0x34, 0x12] = Inr [0x0FFF, 0x0000, 0x0234]
   \<and> sample_word 0x34 0x12 = 0x1234 mod 4096
   \<and> [0x0FFF, 0x0000, 0x0234 :: int] ! 2 = sample_word 0x34 0x12"
proof -
  have p: "parse_values [0xFF, 0xFF, 0x00, 0x10, 0x34, 0x12] = Inr [0x0FFF, 0x0000, 0x0234]"
    by (simp add: sample_word_def unpack_H_def)
  from sample_word_masked [of "0x34" "0x12" "[0xFF, 0xFF, 0x00, 0x10, 0x34, 0x12]"] p
  show ?thesis by simp
qed

subsection \<open>Extremes of a list and the fit in exact arithmetic\<close>

lemma list_min_le: "x \<in> set xs \<Longrightarrow> list_min xs \<le> x"
  by (auto simp: list_min_def)

lemma list_max_ge: "x \<in> set xs \<Longrightarrow> x \<le> list_max xs"
  by (auto simp: list_max_def)

lemma list_min_le_max: "list_min xs \<le> list_max xs"
proof (cases xs)
  case Nil
  then show ?thesis by (simp add: list_min_def list_max_def)
next
  case (Cons x ys)
  then have "x \<in> set xs" by simp
  from list_min_le [OF this] list_max_ge [OF this] show ?thesis by simp
qed

lemma base_ranges:
  "base_x_max - base_x_min = 2800" "base_y_max - base_y_min = 2100"
  "(base_x_min + base_x_max) / 2 = 1400" "(base_y_min + base_y_max) / 2 = - 787.5"
  "(base_x_max + base_x_min) / 2 = 1400" "(base_y_max + base_y_min) / 2 = - 787.5"
  by (simp_all add: base_x_min_def base_x_max_def base_y_min_def base_y_max_def
      y_range_def ADC_MAX_def)

lemma fit_to_window_no_data: "ch1 s = [] \<or> ch2 s = [] \<Longrightarrow> fit_to_window s = s"
  by (auto simp: fit_to_window_def)

lemma fit_to_window_data:
  assumes "ch1 s \<noteq> []" "ch2 s \<noteq> []"
  shows "fit_to_window s =
     s\<lparr>zoom_level := fit_zoom s,
       pan_offset_x := (data_x_min s + data_x_max s) / 2 - 1400,
       pan_offset_y := (data_y_min s + data_y_max s) / 2 - (- 787.5)\<rparr>"
  using assms by (simp add: fit_to_window_def Let_def base_ranges fit_zoom_def min_def)


subsection \<open>The floor of the zoom level\<close>

lemma voltages_okD: "voltages_ok xs \<Longrightarrow> x \<in> set xs \<Longrightarrow> 0 \<le> x \<and> x \<le> 4095"
  by (simp add: voltages_ok_def list_all_iff)

lemma currents_okD: "currents_ok xs \<Longrightarrow> x \<in> set xs \<Longrightarrow> - 4095 \<le> x \<and> x \<le> 4095"
  by (simp add: currents_ok_def list_all_iff)

lemma voltages_ok_append [simp]: "voltages_ok (xs @ ys) = (voltages_ok xs \<and> voltages_ok ys)"
  by (simp add: voltages_ok_def)

lemma currents_ok_append [simp]: "currents_ok (xs @ ys) = (currents_ok xs \<and> currents_ok ys)"
  by (simp add: currents_ok_def)

lemma voltages_ok_span:
  assumes "voltages_ok xs"
  shows "0 \<le> list_min xs" "list_max xs \<le> 4095"
proof -
  show "0 \<le> list_min xs"
  proof (cases xs)
    case Nil then show ?thesis by (simp add: list_min_def)
  next
    case (Cons a as)
    then have "Min (set xs) \<in> set xs" by (intro Min_in) simp_all
    with voltages_okD [OF assms] Cons show ?thesis by (simp add: list_min_def)
  qed
  show "list_max xs \<le> 4095"
  proof (cases xs)
    case Nil then show ?thesis by (simp add: list_max_def)
  next
    case (Cons a as)
    then have "Max (set xs) \<in> set xs" by (intro Max_in) simp_all
    with voltages_okD [OF assms] Cons show ?thesis by (simp add: list_max_def)
  qed
qed

lemma currents_ok_span:
  assumes "currents_ok xs"
  shows "- 4095 \<le> list_min xs" "list_max xs \<le> 4095"
proof -
  show "- 4095 \<le> list_min xs"
  proof (cases xs)
    case Nil then show ?thesis by (simp add: list_min_def)
  next
    case (Cons a as)
    then have "Min (set xs) \<in> set xs" by (intro Min_in) simp_all
    with currents_okD [OF assms] Cons show ?thesis by (simp add: list_min_def)
  qed
  show "list_max xs \<le> 4095"
  proof (cases xs)
    case Nil then show ?thesis by (simp add: list_max_def)
  next
    case (Cons a as)
    then have "Max (set xs) \<in> set xs" by (intro Max_in) simp_all
    with currents_okD [OF assms] Cons show ?thesis by (simp add: list_max_def)
  qed
qed

lemma frame_data_all:
  "frame_data_ok s \<Longrightarrow> voltages_ok (all_x s)"
  "frame_data_ok s \<Longrightarrow> currents_ok (all_y s)"
  by (simp_all add: frame_data_ok_def all_x_def all_y_def)

lemma data_range_span:
  "data_x_range s
     = (real_of_int (list_max (all_x s)) - real_of_int (list_min (all_x s))) * (7 / 5)"
  "data_y_range s
     = (real_of_int (list_max (all_y s)) - real_of_int (list_min (all_y s))) * (7 / 5)"
  by (simp_all add: data_x_range_def data_x_min_def data_x_max_def x_margin_def
      data_y_range_def data_y_min_def data_y_max_def y_margin_def algebra_simps)

lemma zoom_x_floor:
  assumes "frame_data_ok s"
  shows "1 / 10 \<le> zoom_x s"
proof -
  from voltages_ok_span [OF frame_data_all(1) [OF assms]]
  have "real_of_int (list_max (all_x s)) - real_of_int (list_min (all_x s)) \<le> 4095"
    by linarith
  then have r: "data_x_range s \<le> 5733"
    by (simp add: data_range_span)
  show ?thesis
  proof (cases "data_x_range s > 0")
    case True
    with r show ?thesis by (simp add: zoom_x_def base_ranges pos_le_divide_eq)
  next
    case False
    then show ?thesis by (simp add: zoom_x_def)
  qed
qed

lemma zoom_y_floor:
  assumes "frame_data_ok s"
  shows "1 / 10 \<le> zoom_y s"
proof -
  from currents_ok_span [OF frame_data_all(2) [OF assms]]
  have "real_of_int (list_max (all_y s)) - real_of_int (list_min (all_y s)) \<le> 8190"
    by linarith
  then have r: "data_y_range s \<le> 11466"
    by (simp add: data_range_span)
  show ?thesis
  proof (cases "data_y_range s > 0")
    case True
    with r show ?thesis by (simp add: zoom_y_def base_ranges pos_le_divide_eq)
  next
    case False
    then show ?thesis by (simp add: zoom_y_def)
  qed
qed

lemma fit_zoom_floor: "frame_data_ok s \<Longrightarrow> 1 / 10 \<le> fit_zoom s"
  using zoom_x_floor [of s] zoom_y_floor [of s] by (simp add: fit_zoom_def)

lemma frame_data_ok_fit: "frame_data_ok (fit_to_window s) = frame_data_ok s"
  by (cases "ch1 s = [] \<or> ch2 s = []")
     (auto simp: fit_to_window_no_data fit_to_window_data frame_data_ok_def)

lemma view_inv_fit: "view_inv s \<Longrightarrow> view_inv (fit_to_window s)"
proof (cases "ch1 s = [] \<or> ch2 s = []")
  case True
  then show "view_inv s \<Longrightarrow> ?thesis" by (simp add: fit_to_window_no_data)
next
  case False
  assume "view_inv s"
  then have f: "frame_data_ok s" by (simp add: view_inv_def)
  from False have z: "zoom_level (fit_to_window s) = fit_zoom s"
    by (simp add: fit_to_window_data)
  show ?thesis
    using fit_zoom_floor [OF f] f by (simp add: view_inv_def z frame_data_ok_fit)
qed

lemma view_inv_reset: "view_inv s \<Longrightarrow> view_inv (reset_view s)"
  by (simp add: view_inv_def reset_view_def frame_data_ok_def)

lemma view_inv_scroll: "view_inv s \<Longrightarrow> view_inv (on_mouse_scroll y s)"
  by (auto simp: view_inv_def on_mouse_scroll_def frame_data_ok_def)

lemma view_inv_key: "view_inv s \<Longrightarrow> view_inv (on_key_press k s)"
  by (cases k) (auto simp: view_inv_fit view_inv_reset, auto simp: view_inv_def frame_data_ok_def)

lemma voltages_ok_subset: "voltages_ok xs \<Longrightarrow> set ys \<subseteq> set xs \<Longrightarrow> voltages_ok ys"
  by (auto simp: voltages_ok_def list_all_iff)

lemma parse_values_ok: "parse_values data = Inr vs \<Longrightarrow> voltages_ok vs"
  using parse_values_range [of data vs] by (simp add: voltages_ok_def list_all_iff)

lemma currents_ok_diff:
  assumes "voltages_ok a" "voltages_ok b" "n \<le> length a" "n \<le> length b"
  shows "currents_ok (map (\<lambda>i. a ! i - b ! i) [0..<n])"
proof -
  have "- 4095 \<le> a ! i - b ! i \<and> a ! i - b ! i \<le> 4095" if "i < n" for i
  proof -
    from that assms(3,4) have "a ! i \<in> set a" "b ! i \<in> set b" by simp_all
    with voltages_okD [OF assms(1)] voltages_okD [OF assms(2)] show ?thesis
      by fastforce
  qed
  then show ?thesis by (simp add: currents_ok_def list_all_iff)
qed

lemma triplet_of_ok:
  assumes "voltages_ok vs" "length vs = 1008"
  shows "voltages_ok (t_ch1_raw (triplet_of vs))" "voltages_ok (t_ch2_raw (triplet_of vs))"
    "currents_ok (t_ch1_current (triplet_of vs))" "currents_ok (t_ch2_current (triplet_of vs))"
proof -
  have s0: "set (every_third vs) \<subseteq> set vs" by (rule set_every_third)
  have s1: "set (every_third (drop 1 vs)) \<subseteq> set vs"
    using set_every_third [of "drop 1 vs"] set_drop_subset [of 1 vs] by blast
  have s2: "set (every_third (drop 2 vs)) \<subseteq> set vs"
    using set_every_third [of "drop 2 vs"] set_drop_subset [of 2 vs] by blast
  note v0 = voltages_ok_subset [OF assms(1) s0]
  note v1 = voltages_ok_subset [OF assms(1) s1]
  note v2 = voltages_ok_subset [OF assms(1) s2]
  have l: "336 \<le> length (every_third vs)" "336 \<le> length (every_third (drop 1 vs))"
    "336 \<le> length (every_third (drop 2 vs))"
    using assms(2) by (simp_all add: length_every_third)
  show "voltages_ok (t_ch1_raw (triplet_of vs))" "voltages_ok (t_ch2_raw (triplet_of vs))"
    using v1 v2 by (simp_all add: triplet_of_def)
  show "currents_ok (t_ch1_current (triplet_of vs))"
    using currents_ok_diff [OF v0 v1 l(1) l(2)] by (simp add: triplet_of_def)
  show "currents_ok (t_ch2_current (triplet_of vs))"
    using currents_ok_diff [OF v0 v2 l(1) l(3)] by (simp add: triplet_of_def)
qed

lemma decode_frame_ranges:
  assumes "decode_frame data = Inr t"
  shows "voltages_ok (t_ch1_raw t) \<and> voltages_ok (t_ch2_raw t)
       \<and> currents_ok (t_ch1_current t) \<and> currents_ok (t_ch2_current t)"
proof -
  from assms have "length data = 2016" using decode_frame_Inr_iff [of data] by blast
  from decode_frame_ok [OF this] assms obtain vs where
    vs: "parse_values data = Inr vs" "length vs = 1008" and t: "t = triplet_of vs"
    by auto
  from triplet_of_ok [OF parse_values_ok [OF vs(1)] vs(2)] t show ?thesis by simp
qed

lemma view_inv_store:
  assumes "view_inv s"
    and "voltages_ok (t_ch1_raw t) \<and> voltages_ok (t_ch2_raw t)
       \<and> currents_ok (t_ch1_current t) \<and> currents_ok (t_ch2_current t)"
  shows "view_inv (set_active b (store_data b t s))"
  using assms by (simp add: view_inv_def frame_data_ok_def set_active_def store_data_def)

lemma view_inv_decide: "view_inv s \<Longrightarrow> view_inv (snd (snd (decide_command s)))"
  by (simp add: view_inv_def frame_data_ok_def decide_command_def)

lemma view_inv_acquire:
  assumes "view_inv s"
  shows "view_inv (snd (acquire w s))"
proof (cases "acquire w s")
  case (Pair r s')
  show ?thesis
  proof (cases r)
    case Acquired
    with Pair have a: "acquire w s = (Acquired, s')" by simp
    from acquire_Acquired [OF a] obtain data t where
      d: "decode_frame data = Inr t"
      and s': "s' = set_active (fst (snd (decide_command s)))
                 (store_data (fst (snd (decide_command s))) t (snd (snd (decide_command s))))"
      by blast
    from view_inv_store [OF view_inv_decide [OF assms] decode_frame_ranges [OF d]] s' Pair
    show ?thesis by simp
  next
    case (Failed e)
    with Pair have "acquire w s = (Failed e, s')" by simp
    from acquire_Failed [OF this] view_inv_decide [OF assms] assms Pair
    show ?thesis by auto
  qed
qed

lemma view_inv_update: "view_inv s \<Longrightarrow> view_inv (update w s)"
proof -
  assume i: "view_inv s"
  have f: "view_inv (s'\<lparr>frame_count := n\<rparr>) = view_inv s'" for s' n
    by (simp add: view_inv_def frame_data_ok_def)
  from view_inv_acquire [OF i, of w] i show ?thesis
    by (cases "acquire w s") (auto simp: update_def f split: outcome.splits)
qed

lemma view_inv_initial: "view_inv (initial_app port)"
  by (simp add: view_inv_def frame_data_ok_def initial_app_def voltages_ok_def currents_ok_def)

lemma reachable_view_inv: "reachable s \<Longrightarrow> view_inv s"
proof (induction rule: reachable.induct)
  case (r_init port)
  show ?case by (rule view_inv_initial)
next
  case (r_update s w)
  then show ?case by (simp add: view_inv_update)
next
  case (r_key s k)
  then show ?case by (simp add: view_inv_key)
next
  case (r_scroll s scroll_y)
  then show ?case by (simp add: view_inv_scroll)
next
  case (r_fit s)
  then show ?case by (simp add: view_inv_fit)
next
  case (r_reset s)
  then show ?case by (simp add: view_inv_reset)
next
  case (r_serial s port)
  then show ?case by (simp add: view_inv_def frame_data_ok_def)
next
  case (r_settings s b)
  then show ?case by (simp add: view_inv_def frame_data_ok_def)
qed

text \<open>
  Claim C5. The zoom level starts at 1 and is at least 0.1 in every state the
  program can reach, and it stays so after a scroll step in either direction, after
  \<open>reset_view\<close> and after \<open>fit_to_window\<close>: the buffers of a reachable state hold
  only values decoded from frames, voltages in \<open>[0, 4095]\<close> and currents in
  \<open>[-4095, 4095]\<close>.
\<close>

theorem zoom_level_floor:
  "zoom_level (initial_app port) = 1
   \<and> (reachable s \<longrightarrow>
        1 / 10 \<le> zoom_level s
        \<and> 1 / 10 \<le> zoom_level (on_mouse_scroll scroll_y s)
        \<and> 1 / 10 \<le> zoom_level (reset_view s)
        \<and> 1 / 10 \<le> zoom_level (fit_to_window s))"
proof (intro conjI impI)
  show "zoom_level (initial_app port) = 1" by (simp add: initial_app_def)
  assume r: "reachable s"
  from reachable_view_inv [OF r] show "1 / 10 \<le> zoom_level s"
    by (simp add: view_inv_def)
  from reachable_view_inv [OF r_scroll [OF r]]
  show "1 / 10 \<le> zoom_level (on_mouse_scroll scroll_y s)" by (simp add: view_inv_def)
  from reachable_view_inv [OF r_reset [OF r]]
  show "1 / 10 \<le> zoom_level (reset_view s)" by (simp add: view_inv_def)
  from reachable_view_inv [OF r_fit [OF r]]
  show "1 / 10 \<le> zoom_level (fit_to_window s)" by (simp add: view_inv_def)
qed

theorem zoom_level_floor_witness:
  "reachable (on_key_press FitWindow (update frame_wire (initial_app (Some open_port))))
   \<and> 1 / 10 \<le> zoom_level (on_key_press FitWindow (update frame_wire (initial_app (Some open_port))))
   \<and> 1 / 10 \<le> zoom_level (on_mouse_scroll (- 1)
        (on_key_press FitWindow (update frame_wire (initial_app (Some open_port)))))
   \<and> zoom_level (on_mouse_scroll (- 1) (on_mouse_scroll (- 1) (initial_app None))) = 25 / 36"
proof -
  have r: "reachable (on_key_press FitWindow (update frame_wire (initial_app (Some open_port))))"
    by (intro r_key r_update r_init)
  have z: "zoom_level (on_mouse_scroll (- 1) (on_mouse_scroll (- 1) (initial_app None))) = 25 / 36"
    by (simp add: on_mouse_scroll_def initial_app_def)
  from zoom_level_floor [of port
      "on_key_press FitWindow (update frame_wire (initial_app (Some open_port)))" "- 1"] r z
  show ?thesis by blast
qed

subsection \<open>Rounding to double precision\<close>

text \<open>
  Rounding moves a number by at most half a unit in the last place; \<open>dbl_eval\<close>
  gives the result of \<open>dbl\<close> for an argument whose binary exponent is known, and
  \<open>dbl_abs\<close> bounds the error for magnitudes up to \<open>2 ^ 15\<close> by
  \<open>1 / 2 ^ 37 = 1 / 137438953472\<close>.
\<close>

lemma round_even_err: "\<bar>of_int (round_even x) - x\<bar> \<le> 1 / 2"
  unfolding round_even_def Let_def by (auto simp: abs_if) linarith+

lemma round_even_of_int [simp]: "round_even (of_int n) = n"
  by (simp add: round_even_def)

lemma binade_eq:
  "0 < x \<Longrightarrow> 2 powi k \<le> x \<Longrightarrow> x < 2 powi (k + 1) \<Longrightarrow> \<bar>k\<bar> \<le> int n \<Longrightarrow>
     binade n x e = e + k"
proof (induction n arbitrary: x k e)
  case 0
  then show ?case by simp
next
  case (Suc n)
  show ?case
  proof (cases "2 \<le> x")
    case True
    have kpos: "1 \<le> k"
    proof (rule ccontr)
      assume "\<not> 1 \<le> k"
      then have "k + 1 \<le> 1" by simp
      then have "(2::real) powi (k + 1) \<le> 2 powi 1"
        by (intro power_int_increasing) simp_all
      with Suc.prems(3) True show False by simp
    qed
    have a: "2 powi (k - 1) \<le> x / 2"
      using Suc.prems(2) by (simp add: power_int_diff)
    have b: "x / 2 < 2 powi (k - 1 + 1)"
      using Suc.prems(3) by (simp add: power_int_add)
    have "binade n (x / 2) (e + 1) = e + 1 + (k - 1)"
      using Suc.prems(1,4) kpos by (intro Suc.IH [OF _ a b]) simp_all
    with True show ?thesis by simp
  next
    case False
    show ?thesis
    proof (cases "x < 1")
      case True
      have kneg: "k \<le> - 1"
      proof (rule ccontr)
        assume "\<not> k \<le> - 1"
        then have "0 \<le> k" by simp
        then have "(2::real) powi 0 \<le> 2 powi k"
          by (intro power_int_increasing) simp_all
        with Suc.prems(2) True show False by simp
      qed
      have a: "2 powi (k + 1) \<le> 2 * x"
        using Suc.prems(2) by (simp add: power_int_add)
      have b: "2 * x < 2 powi (k + 1 + 1)"
        using Suc.prems(3) by (simp add: power_int_add)
      have "binade n (2 * x) (e - 1) = e - 1 + (k + 1)"
        using Suc.prems(1,4) kneg by (intro Suc.IH [OF _ a b]) simp_all
      with True False show ?thesis by simp
    next
      case x1: False
      have "k = 0"
      proof (rule ccontr)
        assume k: "k \<noteq> 0"
        show False
        proof (cases "k < 0")
          case True
          then have "k + 1 \<le> 0" by simp
          then have "(2::real) powi (k + 1) \<le> 2 powi 0"
            by (intro power_int_increasing) simp_all
          with Suc.prems(3) x1 show False by simp
        next
          case kp: False
          with k have "1 \<le> k" by simp
          then have "(2::real) powi 1 \<le> 2 powi k"
            by (intro power_int_increasing) simp_all
          with Suc.prems(2) False show False by simp
        qed
      qed
      with False x1 show ?thesis by simp
    qed
  qed
qed

lemma dbl_eval:
  assumes "2 powi k \<le> \<bar>x\<bar>" "\<bar>x\<bar> < 2 powi (k + 1)" "- 1022 \<le> k" "k \<le> 2200"
  shows "dbl x = of_int (round_even (x / 2 powi (k - 52))) * 2 powi (k - 52)"
proof -
  have p: "0 < \<bar>x\<bar>"
    using assms(1) zero_less_power_int [of "2::real" k] by linarith
  then have nz: "x \<noteq> 0" by simp
  have "binade 2200 \<bar>x\<bar> 0 = 0 + k"
    using assms by (intro binade_eq [OF p]) simp_all
  with nz assms(3) show ?thesis by (simp add: dbl_def Let_def max_def)
qed

lemma dbl_02: "dbl (2 / 10) = 3602879701896397 / 18014398509481984"
  by (subst dbl_eval [where k = "- 3"]) (simp_all add: round_even_def)

lemma dbl_consts:
  "dbl 2 = 2" "dbl 8 = 8" "dbl 2100 = 2100" "dbl 2800 = 2800" "dbl (- 14700) = - 14700"
proof -
  show "dbl 2 = 2" by (subst dbl_eval [where k = 1]; simp add: round_even_def)
  show "dbl 8 = 8" by (subst dbl_eval [where k = 3]; simp add: round_even_def)
  show "dbl 2100 = 2100" by (subst dbl_eval [where k = 11]; simp add: round_even_def)
  show "dbl 2800 = 2800" by (subst dbl_eval [where k = 11]; simp add: round_even_def)
  show "dbl (- 14700) = - 14700" by (subst dbl_eval [where k = 13]; simp add: round_even_def)
qed

lemma dbl_more_consts:
  "dbl 1400 = 1400" "dbl (525 / 2) = 525 / 2" "dbl (- (3675 / 2)) = - (3675 / 2)"
  "dbl (- 1575) = - 1575" "dbl (- (1575 / 2)) = - (1575 / 2)"
proof -
  show "dbl 1400 = 1400" by (subst dbl_eval [where k = 10]; simp add: round_even_def)
  show "dbl (525 / 2) = 525 / 2" by (subst dbl_eval [where k = 8]; simp add: round_even_def)
  show "dbl (- (3675 / 2)) = - (3675 / 2)"
    by (subst dbl_eval [where k = 10]; simp add: round_even_def)
  show "dbl (- 1575) = - 1575" by (subst dbl_eval [where k = 10]; simp add: round_even_def)
  show "dbl (- (1575 / 2)) = - (1575 / 2)"
    by (subst dbl_eval [where k = 9]; simp add: round_even_def)
qed

lemma binade_ge1: "1 \<le> x \<Longrightarrow> 2 powi (binade n x e - e) \<le> x"
proof (induction n arbitrary: x e)
  case 0
  then show ?case by simp
next
  case (Suc n)
  show ?case
  proof (cases "2 \<le> x")
    case True
    then have "1 \<le> x / 2" by simp
    from Suc.IH [OF this, of "e + 1"]
    have "2 powi (binade n (x / 2) (e + 1) - e - 1) \<le> x / 2" by (simp add: algebra_simps)
    then have "2 powi (binade n (x / 2) (e + 1) - e) \<le> x"
      by (simp add: power_int_diff)
    with True show ?thesis by simp
  next
    case False
    with Suc.prems show ?thesis by simp
  qed
qed

lemma binade_lt1:
  "0 < x \<Longrightarrow> x < 1 \<Longrightarrow> 2 powi (binade n x e - e) \<le> x \<or> binade n x e = e - int n"
proof (induction n arbitrary: x e)
  case 0
  then show ?case by simp
next
  case (Suc n)
  have r: "binade (Suc n) x e = binade n (2 * x) (e - 1)"
    using Suc.prems by simp
  show ?case
  proof (cases "2 * x < 1")
    case True
    from Suc.IH [OF _ True, of "e - 1"] Suc.prems(1)
    have "2 powi (binade n (2 * x) (e - 1) - (e - 1)) \<le> 2 * x
        \<or> binade n (2 * x) (e - 1) = e - 1 - int n" by simp
    then show ?thesis
    proof
      assume "2 powi (binade n (2 * x) (e - 1) - (e - 1)) \<le> 2 * x"
      then have "2 powi (binade n (2 * x) (e - 1) - e) \<le> x"
        by (simp add: power_int_diff algebra_simps power_int_add)
      with r show ?thesis by simp
    next
      assume "binade n (2 * x) (e - 1) = e - 1 - int n"
      with r show ?thesis by simp
    qed
  next
    case False
    then have "1 \<le> 2 * x" by simp
    from binade_ge1 [OF this, of n "e - 1"]
    have "2 powi (binade n (2 * x) (e - 1) - e) \<le> x"
      by (simp add: power_int_diff algebra_simps power_int_add)
    with r show ?thesis by simp
  qed
qed

lemma ulp_bound:
  assumes "x \<noteq> 0"
  shows "2 powi (max (binade 2200 \<bar>x\<bar> 0) (- 1022) - 52) / 2 \<le> \<bar>x\<bar> / 2 ^ 53 + 1 / 2 ^ 1075"
proof -
  let ?e = "binade 2200 \<bar>x\<bar> 0"
  have sub: "(2::real) powi (- 1022 - 52) / 2 = 1 / 2 ^ 1075"
    by (simp add: power_int_minus field_simps)
  have or: "2 powi ?e \<le> \<bar>x\<bar> \<or> ?e = - 2200"
  proof (cases "1 \<le> \<bar>x\<bar>")
    case True
    from binade_ge1 [OF this, of 2200 0] show ?thesis by simp
  next
    case False
    with assms binade_lt1 [of "\<bar>x\<bar>" 2200 0] show ?thesis by simp
  qed
  show ?thesis
  proof (cases "- 1022 \<le> ?e")
    case True
    with or have le: "2 powi ?e \<le> \<bar>x\<bar>" by auto
    have "(2::real) powi (?e - 52) / 2 = 2 powi ?e / 2 ^ 53"
      by (simp add: power_int_diff)
    also have "\<dots> \<le> \<bar>x\<bar> / 2 ^ 53" using le by (simp add: divide_right_mono)
    finally show ?thesis using True by (simp add: max_def)
  next
    case False
    then have "max ?e (- 1022) = - 1022" by simp
    with sub show ?thesis by simp
  qed
qed

lemma dbl_err: "\<bar>dbl x - x\<bar> \<le> \<bar>x\<bar> / 2 ^ 53 + 1 / 2 ^ 1075"
proof (cases "x = 0")
  case True
  then show ?thesis by (simp add: dbl_def)
next
  case False
  define u :: real where "u = 2 powi (max (binade 2200 \<bar>x\<bar> 0) (- 1022) - 52)"
  have u: "0 < u" by (simp add: u_def)
  have d: "dbl x = of_int (round_even (x / u)) * u"
    using False by (simp add: dbl_def u_def Let_def)
  have "dbl x - x = (of_int (round_even (x / u)) - x / u) * u"
    using u by (simp add: d algebra_simps)
  then have "\<bar>dbl x - x\<bar> = \<bar>of_int (round_even (x / u)) - x / u\<bar> * u"
    using u by (simp add: abs_mult)
  also have "\<dots> \<le> 1 / 2 * u"
    using round_even_err [of "x / u"] u by (intro mult_right_mono) simp_all
  also have "\<dots> \<le> \<bar>x\<bar> / 2 ^ 53 + 1 / 2 ^ 1075"
    using ulp_bound [OF False] by (simp add: u_def)
  finally show ?thesis .
qed

lemma dbl_zero [simp]: "dbl 0 = 0"
  by (simp add: dbl_def)

lemma dbl_abs: "\<bar>x\<bar> \<le> 32768 \<Longrightarrow> \<bar>dbl x - x\<bar> \<le> 1 / 137438953472"
proof -
  assume "\<bar>x\<bar> \<le> 32768"
  then have "\<bar>x\<bar> / 2 ^ 53 + 1 / 2 ^ 1075 \<le> 32768 / 2 ^ 53 + 1 / 2 ^ 1075"
    by (simp add: divide_right_mono)
  also have "\<dots> \<le> (1 / 137438953472 :: real)" by simp
  finally show ?thesis using dbl_err [of x] by linarith
qed

lemma dbl_rel:
  assumes "1 / 8 \<le> x"
  shows "x - x / 2 ^ 52 \<le> dbl x" "dbl x \<le> x + x / 2 ^ 52"
proof -
  have "(1 / 2 ^ 1075 :: real) \<le> (1 / 8) / 2 ^ 53" by simp
  also have "\<dots> \<le> x / 2 ^ 53" using assms by (simp add: divide_right_mono)
  finally have t: "1 / 2 ^ 1075 \<le> x / 2 ^ 53" .
  have "\<bar>dbl x - x\<bar> \<le> x / 2 ^ 53 + 1 / 2 ^ 1075"
    using dbl_err [of x] assms by simp
  with t have "\<bar>dbl x - x\<bar> \<le> x / 2 ^ 53 + x / 2 ^ 53" by linarith
  then have e: "\<bar>dbl x - x\<bar> \<le> x / 2 ^ 52" by simp
  from e show "x - x / 2 ^ 52 \<le> dbl x" by linarith
  from e show "dbl x \<le> x + x / 2 ^ 52" by linarith
qed

subsection \<open>One axis of the fitted view\<close>

text \<open>
  The locals of one axis against their values in exact arithmetic, for a smallest
  value \<open>lo\<close> and a largest value \<open>hi\<close> in the range of decoded frames. The
  errors are counted in units of \<open>1 / 137438953472\<close>.
\<close>

lemma axis_zero_span:
  "margin_dbl lo lo = 0" "data_max_dbl lo lo = data_min_dbl lo lo" "data_range_dbl lo lo = 0"
  "zoom_dbl base_range lo lo = 1"
  by (simp_all add: margin_dbl_def data_max_dbl_def data_min_dbl_def data_range_dbl_def
      zoom_dbl_def)

lemma axis_err:
  fixes lo hi :: int
  assumes "lo \<le> hi" "- 4095 \<le> lo" "hi \<le> 4095"
  shows "\<bar>margin_dbl lo hi - (of_int hi - of_int lo) / 5\<bar> \<le> 3 / 137438953472"
    and "\<bar>data_min_dbl lo hi - (of_int lo - (of_int hi - of_int lo) / 5)\<bar> \<le> 5 / 137438953472"
    and "\<bar>data_max_dbl lo hi - (of_int hi + (of_int hi - of_int lo) / 5)\<bar> \<le> 5 / 137438953472"
    and "\<bar>data_range_dbl lo hi - 7 * (of_int hi - of_int lo) / 5\<bar> \<le> 11 / 137438953472"
    and "\<bar>data_center_dbl lo hi - (of_int lo + of_int hi) / 2\<bar> \<le> 7 / 137438953472"
proof -
  define L :: real where "L = of_int lo"
  define H :: real where "H = of_int hi"
  have LH: "L \<le> H" "- 4095 \<le> L" "H \<le> 4095"
    using assms by (simp_all add: L_def H_def)
  define D where "D = dbl (of_int (hi - lo))"
  have od: "real_of_int (hi - lo) = H - L" by (simp add: L_def H_def)
  have D: "\<bar>D - (H - L)\<bar> \<le> 1 / 137438953472"
    unfolding D_def od using LH by (intro dbl_abs) simp
  define c :: real where "c = 3602879701896397 / 18014398509481984"
  have c: "dbl (2 / 10) = c" unfolding c_def by (rule dbl_02)
  define m where "m = margin_dbl lo hi"
  have m_eq: "m = dbl (D * c)" by (simp only: m_def margin_dbl_def D_def c)
  have Dc1: "\<bar>D * c\<bar> \<le> 32768"
    using D LH unfolding c_def by argo
  have Dc2: "\<bar>D * c - (H - L) / 5\<bar> \<le> 2 / 137438953472"
    using D LH unfolding c_def by argo
  note Dc = Dc1 Dc2
  have m: "\<bar>m - (H - L) / 5\<bar> \<le> 3 / 137438953472"
    using dbl_abs [OF Dc(1)] Dc(2) unfolding m_eq by argo
  define l where "l = dbl L"
  define h where "h = dbl H"
  have l: "\<bar>l - L\<bar> \<le> 1 / 137438953472" unfolding l_def using LH by (intro dbl_abs) simp
  have h: "\<bar>h - H\<bar> \<le> 1 / 137438953472" unfolding h_def using LH by (intro dbl_abs) simp
  define a where "a = data_min_dbl lo hi"
  define b where "b = data_max_dbl lo hi"
  have a_eq: "a = dbl (l - m)" by (simp add: a_def data_min_dbl_def l_def L_def m_def)
  have b_eq: "b = dbl (h + m)" by (simp add: b_def data_max_dbl_def h_def H_def m_def)
  have "\<bar>l - m\<bar> \<le> 32768" using l m LH by argo
  from dbl_abs [OF this] have a: "\<bar>a - (L - (H - L) / 5)\<bar> \<le> 5 / 137438953472"
    unfolding a_eq using l m by argo
  have "\<bar>h + m\<bar> \<le> 32768" using h m LH by argo
  from dbl_abs [OF this] have b: "\<bar>b - (H + (H - L) / 5)\<bar> \<le> 5 / 137438953472"
    unfolding b_eq using h m by argo
  define r where "r = data_range_dbl lo hi"
  have r_eq: "r = dbl (b - a)" by (simp add: r_def data_range_dbl_def a_def b_def)
  have "\<bar>b - a\<bar> \<le> 32768" using a b LH by argo
  from dbl_abs [OF this] have r: "\<bar>r - 7 * (H - L) / 5\<bar> \<le> 11 / 137438953472"
    unfolding r_eq using a b by argo
  define s where "s = dbl (a + b)"
  have "\<bar>a + b\<bar> \<le> 32768" using a b LH by argo
  from dbl_abs [OF this] have s: "\<bar>s - (L + H)\<bar> \<le> 11 / 137438953472"
    unfolding s_def using a b by argo
  define ctr where "ctr = data_center_dbl lo hi"
  have ctr_eq: "ctr = dbl (s / 2)"
    by (simp add: ctr_def data_center_dbl_def s_def a_def b_def)
  have "\<bar>s / 2\<bar> \<le> 32768" using s LH by argo
  from dbl_abs [OF this] have ctr: "\<bar>ctr - (L + H) / 2\<bar> \<le> 7 / 137438953472"
    unfolding ctr_eq using s by argo
  show "\<bar>margin_dbl lo hi - (of_int hi - of_int lo) / 5\<bar> \<le> 3 / 137438953472"
    using m by (simp add: m_def L_def H_def)
  show "\<bar>data_min_dbl lo hi - (of_int lo - (of_int hi - of_int lo) / 5)\<bar> \<le> 5 / 137438953472"
    using a by (simp add: a_def L_def H_def)
  show "\<bar>data_max_dbl lo hi - (of_int hi + (of_int hi - of_int lo) / 5)\<bar> \<le> 5 / 137438953472"
    using b by (simp add: b_def L_def H_def)
  show "\<bar>data_range_dbl lo hi - 7 * (of_int hi - of_int lo) / 5\<bar> \<le> 11 / 137438953472"
    using r by (simp add: r_def L_def H_def)
  show "\<bar>data_center_dbl lo hi - (of_int lo + of_int hi) / 2\<bar> \<le> 7 / 137438953472"
    using ctr by (simp add: ctr_def L_def H_def)
qed

lemma base_dbl:
  "base_x_range_dbl = 2800" "base_y_range_dbl = 2100"
  "base_x_center_dbl = 1400" "base_y_center_dbl = - (1575 / 2)"
  by (simp_all add: base_x_range_dbl_def base_y_range_dbl_def base_x_center_dbl_def
      base_y_center_dbl_def base_y_max_dbl_def base_y_min_dbl_def ADC_MAX_def dbl_consts
      dbl_more_consts)

lemma zoom_axis:
  fixes lo hi :: int and B :: real
  assumes "lo < hi" "- 4095 \<le> lo" "hi \<le> 4095" "2100 \<le> B" "B \<le> 2800"
  shows "exact_fit B lo hi * (1 - 10 / 137438953472) \<le> zoom_dbl B lo hi"
    and "zoom_dbl B lo hi \<le> exact_fit B lo hi * (1 + 10 / 137438953472)"
    and "7 * (of_int hi - of_int lo) / 5 - 12 / 137438953472 \<le> B / zoom_dbl B lo hi"
    and "9 / 50 \<le> zoom_dbl B lo hi"
proof -
  define R :: real where "R = 7 * (of_int hi - of_int lo) / 5"
  define r where "r = data_range_dbl lo hi"
  have "real_of_int lo + 1 \<le> real_of_int hi"
    using assms(1) by (metis add.commute of_int_1 of_int_add of_int_le_iff zless_imp_add1_zle)
  moreover have "- 4095 \<le> real_of_int lo" "real_of_int hi \<le> 4095"
    using assms(2,3) by simp_all
  ultimately have R: "7 / 5 \<le> R" "R \<le> 11466" unfolding R_def by argo+
  have le: "lo \<le> hi" using assms(1) by simp
  have r: "\<bar>r - R\<bar> \<le> 11 / 137438953472"
    using axis_err(4) [OF le assms(2,3)] by (simp add: r_def R_def)
  have rpos: "0 < r" using r R by argo
  have Z: "exact_fit B lo hi = B / R"
    using assms(1) by (simp add: exact_fit_def R_def algebra_simps)
  define q where "q = B / r"
  have zf: "zoom_dbl B lo hi = dbl q"
    using rpos by (simp add: zoom_dbl_def r_def q_def)
  have r_hi: "r \<le> 11467" using r R by argo
  have "2100 / 11467 \<le> B / r"
    using assms(4) rpos r_hi by (intro frac_le) simp_all
  then have q8: "1 / 8 \<le> q" unfolding q_def by argo
  note rel = dbl_rel [OF q8]
  have up1: "R / (1 + 9 / 137438953472) \<le> r" using r R by argo
  have "B / r \<le> B / (R / (1 + 9 / 137438953472))"
    using up1 R assms(4) by (intro divide_left_mono) (simp_all add: rpos)
  then have q_up: "q \<le> B / R * (1 + 9 / 137438953472)"
    by (simp add: q_def)
  have lo1: "r \<le> R / (1 - 8 / 137438953472)" using r R by argo
  have "B / (R / (1 - 8 / 137438953472)) \<le> B / r"
    using lo1 R assms(4) rpos by (intro divide_left_mono) simp_all
  then have q_lo: "B / R * (1 - 8 / 137438953472) \<le> q"
    by (simp add: q_def)
  have Zpos: "0 \<le> B / R" using R assms(4) by simp
  have p52: "(2::real) ^ 52 = 4503599627370496" by simp
  show "exact_fit B lo hi * (1 - 10 / 137438953472) \<le> zoom_dbl B lo hi"
    using rel(1) q_lo Zpos unfolding Z zf p52 by argo
  show zup: "zoom_dbl B lo hi \<le> exact_fit B lo hi * (1 + 10 / 137438953472)"
    using rel(2) q_up Zpos unfolding Z zf p52 by argo
  have "2100 / 11466 \<le> B / R"
    using assms(4) R by (intro frac_le) simp_all
  with rel(1) q_lo show z50: "9 / 50 \<le> zoom_dbl B lo hi"
    unfolding zf p52 by argo
  have qpos: "0 < q" using q8 by argo
  have zle: "dbl q \<le> q * (1 + 1 / 4503599627370496)"
    using rel(2) unfolding p52 by argo
  have zpos: "0 < dbl q" using z50 unfolding zf by argo
  have "B / (q * (1 + 1 / 4503599627370496)) \<le> B / dbl q"
    using zle zpos assms(4) by (intro divide_left_mono) simp_all
  moreover have "B / (q * (1 + 1 / 4503599627370496)) = r / (1 + 1 / 4503599627370496)"
    using rpos assms(4) by (simp add: q_def)
  moreover have "R - 12 / 137438953472 \<le> r / (1 + 1 / 4503599627370496)"
    using r r_hi R by argo
  ultimately show "7 * (of_int hi - of_int lo) / 5 - 12 / 137438953472 \<le> B / zoom_dbl B lo hi"
    unfolding zf R_def by argo
qed

lemma zoom_axis_all:
  fixes lo hi :: int and B :: real
  assumes "lo \<le> hi" "- 4095 \<le> lo" "hi \<le> 4095" "2100 \<le> B" "B \<le> 2800"
  shows "exact_fit B lo hi * (1 - 10 / 137438953472) \<le> zoom_dbl B lo hi"
    and "zoom_dbl B lo hi \<le> exact_fit B lo hi * (1 + 10 / 137438953472)"
    and "7 * (of_int hi - of_int lo) / 5 - 12 / 137438953472 \<le> B / zoom_dbl B lo hi"
    and "9 / 50 \<le> zoom_dbl B lo hi"
    and "0 \<le> exact_fit B lo hi"
proof -
  show "0 \<le> exact_fit B lo hi"
    using assms(1,4) by (simp add: exact_fit_def)
  show "exact_fit B lo hi * (1 - 10 / 137438953472) \<le> zoom_dbl B lo hi"
  proof (cases "lo = hi")
    case True
    then show ?thesis by (simp add: axis_zero_span exact_fit_def)
  next
    case False
    with assms(1) have "lo < hi" by simp
    from zoom_axis(1) [OF this assms(2-5)] show ?thesis .
  qed
  show "zoom_dbl B lo hi \<le> exact_fit B lo hi * (1 + 10 / 137438953472)"
  proof (cases "lo = hi")
    case True
    then show ?thesis by (simp add: axis_zero_span exact_fit_def)
  next
    case False
    with assms(1) have "lo < hi" by simp
    from zoom_axis(2) [OF this assms(2-5)] show ?thesis .
  qed
  show "7 * (of_int hi - of_int lo) / 5 - 12 / 137438953472 \<le> B / zoom_dbl B lo hi"
  proof (cases "lo = hi")
    case True
    with assms(4) show ?thesis by (simp add: axis_zero_span)
  next
    case False
    with assms(1) have "lo < hi" by simp
    from zoom_axis(3) [OF this assms(2-5)] show ?thesis .
  qed
  show "9 / 50 \<le> zoom_dbl B lo hi"
  proof (cases "lo = hi")
    case True
    then show ?thesis by (simp add: axis_zero_span)
  next
    case False
    with assms(1) have "lo < hi" by simp
    from zoom_axis(4) [OF this assms(2-5)] show ?thesis .
  qed
qed

lemma bounds_axis:
  fixes lo hi :: int and B C z :: real
  assumes "lo \<le> hi" "- 4095 \<le> lo" "hi \<le> 4095"
    and "2100 \<le> B" "B \<le> 2800" "\<bar>C\<bar> \<le> 1400" "9 / 50 \<le> z"
    and V: "7 * (of_int hi - of_int lo) / 5 - 12 / 137438953472 \<le> B / z"
  defines "xc \<equiv> dbl (C + dbl (data_center_dbl lo hi - C))"
    and "hw \<equiv> dbl (dbl (B / z) / 2)"
  shows "dbl (xc - hw) \<le> of_int lo - (of_int hi - of_int lo) / 5 + 18 / 137438953472"
    and "of_int hi + (of_int hi - of_int lo) / 5 - 18 / 137438953472 \<le> dbl (xc + hw)"
proof -
  define L :: real where "L = of_int lo"
  define H :: real where "H = of_int hi"
  have LH: "L \<le> H" "- 4095 \<le> L" "H \<le> 4095"
    using assms(1-3) by (simp_all add: L_def H_def)
  define ctr where "ctr = data_center_dbl lo hi"
  have ctr: "\<bar>ctr - (L + H) / 2\<bar> \<le> 7 / 137438953472"
    using axis_err(5) [OF assms(1-3)] by (simp add: ctr_def L_def H_def)
  define W where "W = B / z"
  have "B / z \<le> 2800 / (9 / 50)"
    using assms(4,5,7) by (intro frac_le) simp_all
  then have W_hi: "W \<le> 15556" unfolding W_def by argo
  have W_lo: "7 * (H - L) / 5 - 12 / 137438953472 \<le> W"
    using V by (simp add: W_def L_def H_def)
  have W0: "0 \<le> W" using assms(4,7) by (simp add: W_def)
  define w where "w = dbl W"
  have "\<bar>W\<bar> \<le> 32768" using W_hi W0 by argo
  from dbl_abs [OF this] have w: "\<bar>w - W\<bar> \<le> 1 / 137438953472" by (simp add: w_def)
  have hw_eq: "hw = dbl (w / 2)" by (simp add: hw_def w_def W_def)
  have "\<bar>w / 2\<bar> \<le> 32768" using w W_hi W0 by argo
  from dbl_abs [OF this] have hw: "\<bar>hw - w / 2\<bar> \<le> 1 / 137438953472"
    by (simp add: hw_eq)
  define pan where "pan = dbl (ctr - C)"
  have "\<bar>ctr - C\<bar> \<le> 32768" using ctr LH assms(6) by argo
  from dbl_abs [OF this] have pan: "\<bar>pan - (ctr - C)\<bar> \<le> 1 / 137438953472"
    by (simp add: pan_def)
  have xc_eq: "xc = dbl (C + pan)" by (simp add: xc_def pan_def ctr_def)
  have "\<bar>C + pan\<bar> \<le> 32768" using pan ctr LH assms(6) by argo
  from dbl_abs [OF this] have xc: "\<bar>xc - (C + pan)\<bar> \<le> 1 / 137438953472"
    by (simp add: xc_eq)
  have "\<bar>xc - hw\<bar> \<le> 32768" using xc pan ctr hw w W_hi W0 LH assms(6) by argo
  from dbl_abs [OF this] have lower: "\<bar>dbl (xc - hw) - (xc - hw)\<bar> \<le> 1 / 137438953472" .
  have "\<bar>xc + hw\<bar> \<le> 32768" using xc pan ctr hw w W_hi W0 LH assms(6) by argo
  from dbl_abs [OF this] have upper: "\<bar>dbl (xc + hw) - (xc + hw)\<bar> \<le> 1 / 137438953472" .
  have "dbl (xc - hw) \<le> L - (H - L) / 5 + 18 / 137438953472"
    using lower xc pan ctr hw w W_lo by argo
  then show "dbl (xc - hw) \<le> of_int lo - (of_int hi - of_int lo) / 5 + 18 / 137438953472"
    by (simp add: L_def H_def)
  have "H + (H - L) / 5 - 18 / 137438953472 \<le> dbl (xc + hw)"
    using upper xc pan ctr hw w W_lo by argo
  then show "of_int hi + (of_int hi - of_int lo) / 5 - 18 / 137438953472 \<le> dbl (xc + hw)"
    by (simp add: L_def H_def)
qed

lemma clamp_close:
  fixes zx zy ex ey :: real
  assumes "ex * (1 - 10 / 137438953472) \<le> zx" "zx \<le> ex * (1 + 10 / 137438953472)"
    and "ey * (1 - 10 / 137438953472) \<le> zy" "zy \<le> ey * (1 + 10 / 137438953472)"
    and "0 \<le> ex" "0 \<le> ey"
  shows "\<bar>(if min zx zy > 1 then 1 else min zx zy) - min 1 (min ex ey)\<bar> \<le> 1 / 10 ^ 9"
proof -
  have p: "(10::real) ^ 9 = 1000000000" by simp
  show ?thesis
    unfolding p using assms by (auto simp: min_def; argo)
qed

subsection \<open>Fit to window\<close>


lemma fit_dbl_data:
  assumes "ch1 s \<noteq> []" "ch2 s \<noteq> []"
  shows "fit_to_window_dbl s =
     s\<lparr>zoom_level := fit_zoom_dbl s,
       pan_offset_x := dbl (data_center_dbl (list_min (all_x s)) (list_max (all_x s)) - 1400),
       pan_offset_y :=
         dbl (data_center_dbl (list_min (all_y s)) (list_max (all_y s)) - (- (1575 / 2)))\<rparr>"
  using assms by (simp add: fit_to_window_dbl_def Let_def base_dbl fit_zoom_dbl_def)

lemma fixed_bounds_dbl_fit:
  assumes "ch1 s \<noteq> []" "ch2 s \<noteq> []" "fit_zoom_dbl s \<noteq> 0"
  shows "fixed_bounds_dbl (fit_to_window_dbl s) =
     Some (dbl (dbl (1400 + dbl (data_center_dbl (list_min (all_x s)) (list_max (all_x s)) - 1400))
                - dbl (dbl (2800 / fit_zoom_dbl s) / 2)),
           dbl (dbl (1400 + dbl (data_center_dbl (list_min (all_x s)) (list_max (all_x s)) - 1400))
                + dbl (dbl (2800 / fit_zoom_dbl s) / 2)),
           dbl (dbl (- (1575 / 2)
                  + dbl (data_center_dbl (list_min (all_y s)) (list_max (all_y s)) - (- (1575 / 2))))
                - dbl (dbl (2100 / fit_zoom_dbl s) / 2)),
           dbl (dbl (- (1575 / 2)
                  + dbl (data_center_dbl (list_min (all_y s)) (list_max (all_y s)) - (- (1575 / 2))))
                + dbl (dbl (2100 / fit_zoom_dbl s) / 2)))"
  using assms(3)
  by (simp add: fit_dbl_data [OF assms(1,2)] fixed_bounds_dbl_def Let_def base_dbl dbl_consts)



lemma fit_dbl_axes:
  assumes d: "ch1 s \<noteq> []" "ch2 s \<noteq> []" and ok: "frame_data_ok s"
  shows "\<bar>zoom_level (fit_to_window_dbl s)
           - min 1 (min (exact_fit 2800 (list_min (all_x s)) (list_max (all_x s)))
                        (exact_fit 2100 (list_min (all_y s)) (list_max (all_y s))))\<bar>
          \<le> 1 / 10 ^ 9"
    and "9 / 50 \<le> zoom_level (fit_to_window_dbl s)"
    and "zoom_level (fit_to_window_dbl s) \<le> 1"
    and "\<exists>x_min x_max y_min y_max.
           fixed_bounds_dbl (fit_to_window_dbl s) = Some (x_min, x_max, y_min, y_max)
           \<and> x_min \<le> real_of_int (list_min (all_x s))
                 - (real_of_int (list_max (all_x s)) - real_of_int (list_min (all_x s))) / 5
                 + 18 / 137438953472
           \<and> real_of_int (list_max (all_x s))
                 + (real_of_int (list_max (all_x s)) - real_of_int (list_min (all_x s))) / 5
                 - 18 / 137438953472 \<le> x_max
           \<and> y_min \<le> real_of_int (list_min (all_y s))
                 - (real_of_int (list_max (all_y s)) - real_of_int (list_min (all_y s))) / 5
                 + 18 / 137438953472
           \<and> real_of_int (list_max (all_y s))
                 + (real_of_int (list_max (all_y s)) - real_of_int (list_min (all_y s))) / 5
                 - 18 / 137438953472 \<le> y_max"
proof -
  define xlo xhi ylo yhi where "xlo = list_min (all_x s)" and "xhi = list_max (all_x s)"
    and "ylo = list_min (all_y s)" and "yhi = list_max (all_y s)"
  define zx zy where "zx = zoom_dbl 2800 xlo xhi" and "zy = zoom_dbl 2100 ylo yhi"
  define z where "z = fit_zoom_dbl s"
  have x: "xlo \<le> xhi" "- 4095 \<le> xlo" "xhi \<le> 4095"
    using voltages_ok_span [OF frame_data_all(1) [OF ok]] list_min_le_max [of "all_x s"]
    by (simp_all add: xlo_def xhi_def)
  have y: "ylo \<le> yhi" "- 4095 \<le> ylo" "yhi \<le> 4095"
    using currents_ok_span [OF frame_data_all(2) [OF ok]] list_min_le_max [of "all_y s"]
    by (simp_all add: ylo_def yhi_def)
  have bx: "2100 \<le> (2800::real)" "(2800::real) \<le> 2800" "\<bar>1400::real\<bar> \<le> 1400" by simp_all
  have by': "2100 \<le> (2100::real)" "(2100::real) \<le> 2800" "\<bar>- (1575 / 2)::real\<bar> \<le> 1400"
    by simp_all
  note zxf = zoom_axis_all [OF x bx(1,2), folded zx_def]
  note zyf = zoom_axis_all [OF y by'(1,2), folded zy_def]
  have zdef: "z = (if min zx zy > 1 then 1 else min zx zy)"
    by (simp add: z_def fit_zoom_dbl_def zx_def zy_def xlo_def xhi_def ylo_def yhi_def Let_def)
  have zl: "9 / 50 \<le> z" and zxy: "z \<le> zx" "z \<le> zy"
    using zxf(4) zyf(4) by (auto simp: zdef min_def)
  have zpos: "0 < z" "0 < zx" "0 < zy" using zl zxf(4) zyf(4) by linarith+
  have zl_eq: "zoom_level (fit_to_window_dbl s) = z"
    by (simp add: fit_dbl_data [OF d] z_def)
  show "\<bar>zoom_level (fit_to_window_dbl s)
           - min 1 (min (exact_fit 2800 (list_min (all_x s)) (list_max (all_x s)))
                        (exact_fit 2100 (list_min (all_y s)) (list_max (all_y s))))\<bar>
          \<le> 1 / 10 ^ 9"
    unfolding zl_eq zdef
    using clamp_close [OF zxf(1,2) zyf(1,2) zxf(5) zyf(5)]
    by (simp only: xlo_def xhi_def ylo_def yhi_def)
  show "9 / 50 \<le> zoom_level (fit_to_window_dbl s)"
    unfolding zl_eq by (rule zl)
  show "zoom_level (fit_to_window_dbl s) \<le> 1"
    unfolding zl_eq by (auto simp: zdef min_def)
  have "2800 / zx \<le> 2800 / z"
    using zxy(1) zpos by (intro divide_left_mono) simp_all
  with zxf(3) have vx: "7 * (of_int xhi - of_int xlo) / 5 - 12 / 137438953472 \<le> 2800 / z"
    by linarith
  have "2100 / zy \<le> 2100 / z"
    using zxy(2) zpos by (intro divide_left_mono) simp_all
  with zyf(3) have vy: "7 * (of_int yhi - of_int ylo) / 5 - 12 / 137438953472 \<le> 2100 / z"
    by linarith
  note ax = bounds_axis [OF x bx zl vx]
  note ay = bounds_axis [OF y by' zl vy]
  have nz: "fit_zoom_dbl s \<noteq> 0" using zpos(1) by (simp add: z_def)
  show "\<exists>x_min x_max y_min y_max.
           fixed_bounds_dbl (fit_to_window_dbl s) = Some (x_min, x_max, y_min, y_max)
           \<and> x_min \<le> real_of_int (list_min (all_x s))
                 - (real_of_int (list_max (all_x s)) - real_of_int (list_min (all_x s))) / 5
                 + 18 / 137438953472
           \<and> real_of_int (list_max (all_x s))
                 + (real_of_int (list_max (all_x s)) - real_of_int (list_min (all_x s))) / 5
                 - 18 / 137438953472 \<le> x_max
           \<and> y_min \<le> real_of_int (list_min (all_y s))
                 - (real_of_int (list_max (all_y s)) - real_of_int (list_min (all_y s))) / 5
                 + 18 / 137438953472
           \<and> real_of_int (list_max (all_y s))
                 + (real_of_int (list_max (all_y s)) - real_of_int (list_min (all_y s))) / 5
                 - 18 / 137438953472 \<le> y_max"
    unfolding fixed_bounds_dbl_fit [OF d nz]
    using ax ay unfolding xlo_def xhi_def ylo_def yhi_def z_def
    by (intro exI conjI) (rule refl, assumption+)
qed

text \<open>
  \<open>exact_fit\<close> is the fit factor that the source computes when nothing is rounded,
  so the zoom level in double precision is within \<open>1 / 10 ^ 9\<close> of the one in
  exact arithmetic.
\<close>

lemma zoom_exact:
  "zoom_x s = exact_fit 2800 (list_min (all_x s)) (list_max (all_x s))"
  "zoom_y s = exact_fit 2100 (list_min (all_y s)) (list_max (all_y s))"
  using list_min_le_max [of "all_x s"] list_min_le_max [of "all_y s"]
  by (auto simp: zoom_x_def zoom_y_def data_range_span base_ranges exact_fit_def
      algebra_simps)

lemma fit_dbl_close_to_exact:
  assumes "ch1 s \<noteq> []" "ch2 s \<noteq> []" "frame_data_ok s"
  shows "\<bar>zoom_level (fit_to_window_dbl s) - zoom_level (fit_to_window s)\<bar> \<le> 1 / 10 ^ 9"
  using fit_dbl_axes(1) [OF assms]
  by (simp add: fit_to_window_data [OF assms(1,2)] fit_zoom_def zoom_exact)



















end
